theory Spec2Isabelle
  imports Main
begin

section \<open>The local development manager\<close>

text \<open>
  A shallow embedding of the class \<^verbatim>\<open>LocalDevManager\<close>. Every method is a function on
  an explicit state: the fields of the manager, the part of the Node runtime the class
  relies on (its timer table, the clock, whether the process has exited), and a trace of
  the calls the manager makes on its collaborators. A method that the source declares
  \<^verbatim>\<open>async\<close> returns the promise of its result together with the new state.

  One invocation of a handler (a watch event, a timer callback, \<^verbatim>\<open>stop()\<close>, the
  settling of an upload) runs without another handler in between. The upload queue starts
  a task only while it runs and fewer than its ten slots are taken; a task that awaits an
  upload or a delete keeps its slot until that call settles, which is an event of its own.
  Every call on the build service is made with \<^verbatim>\<open>this.targetAccountId\<close> and
  \<^verbatim>\<open>this.projectConfig.name\<close>, which never change; the trace leaves them out.
  The record describes a manager on which \<^verbatim>\<open>start()\<close> has replaced the null handles
  \<^verbatim>\<open>spinnies\<close>, \<^verbatim>\<open>watcher\<close> and \<^verbatim>\<open>uploadQueue\<close> of the constructor.
  The answer \<open>Promise Pending\<close> of a collaborator stands for a call that never
  returns: it suspends its caller for good. A timer callback that waits for the queue to
  become idle goes on when the queue is idle. A caller that waits for tasks which the
  queue has not started (a flush into a full or paused queue) is left where it waits.
\<close>

subsection \<open>Data\<close>

text \<open>\<^verbatim>\<open>WATCH_EVENTS\<close>: add, change, unlink, unlinkDir.\<close>

datatype watch_event = Add | Change | Unlink | UnlinkDir

text \<open>The object \<^verbatim>\<open>changeInfo\<close> of \<^verbatim>\<open>handleWatchEvent\<close>.\<close>

record change_info =
  event :: watch_event
  filePath :: string
  remotePath :: string

text \<open>An entry of \<^verbatim>\<open>this.standbyChanges\<close>: \<^verbatim>\<open>{ ...changeInfo, supported }\<close>.\<close>

record standby_change =
  change :: change_info
  supported :: bool

text \<open>
  Modelled from the spec: \<^verbatim>\<open>ERROR_TYPES\<close> and \<^verbatim>\<open>isSpecifiedError\<close> of the package
  cli-lib are not among the sources. Section 6 of the specification lists the error
  signals of the build service: project locked, build not in progress, missing project
  provision, and any other error.
\<close>

datatype api_error =
  PROJECT_LOCKED | BUILD_NOT_IN_PROGRESS | MISSING_PROJECT_PROVISION | OTHER_ERROR

definition isSpecifiedError :: "api_error \<Rightarrow> api_error \<Rightarrow> bool" where
  "isSpecifiedError err subCategory = (err = subCategory)"

text \<open>
  Modelled from the spec: the file \<^verbatim>\<open>enums/exitCodes\<close> is not among the sources.
  Section 7 of the specification asks for a success code and a distinct code for the
  fatal paths; these are the two members of \<^verbatim>\<open>EXIT_CODES\<close> the manager uses.
\<close>

datatype exit_code = SUCCESS | ERROR

text \<open>
  A promise is fulfilled, rejected, or still pending. A call of an external function
  either throws before it returns, or returns a promise.
\<close>

datatype 'a promise = Fulfilled 'a | Rejected api_error | Pending

datatype 'a call = SyncThrow api_error | Promise "'a promise"

text \<open>
  \<^verbatim>\<open>await f()\<close> inside \<^verbatim>\<open>try\<close>: a throw and a rejection both reach the handler.
  \<open>None\<close> stands for a promise that never settles.
\<close>

fun await :: "'a call \<Rightarrow> (api_error + 'a) option" where
  "await (SyncThrow e) = Some (Inl e)"
| "await (Promise (Rejected e)) = Some (Inl e)"
| "await (Promise (Fulfilled v)) = Some (Inr v)"
| "await (Promise Pending) = None"

text \<open>
  The two closures given to the upload queue: the one of \<^verbatim>\<open>handleWatchEvent\<close>
  (\<^verbatim>\<open>await this.sendChanges(changeInfo)\<close>) and the one of \<^verbatim>\<open>flushStandbyChanges\<close>.
\<close>

datatype task = WatchTask change_info | StandbyTask change_info

text \<open>What the manager does to its collaborators, in the order it does it.\<close>

datatype effect =
    CallProvisionBuild
  | CallCancelStagedBuild
  | CallUploadFileToBuild string string
  | CallDeleteFileFromBuild string
  | CallQueueBuild
  | CallPollProjectBuildAndDeploy "nat option"
  | QueueAdd task
  | QueuePause
  | QueueStart
  | WatcherClose
  | SpinniesRemoveAll
  | SpinniesAdd string string
  | SpinniesUpdate string string
  | SpinniesSucceed string string
  | SpinniesFail string string
  | LoggerDebug string
  | LoggerDebugError api_error
  | LoggerLog string
  | LogApiErrorInstance api_error
  | ProcessExit exit_code

text \<open>
  The collaborators that are not part of the class. The answers of the build service may
  depend on everything that has happened so far, so each takes the trace.
\<close>

record env =
  isAllowedExtension :: "string \<Rightarrow> bool"
  shouldIgnoreFile :: "string \<Rightarrow> bool \<Rightarrow> bool"
  relative :: "string \<Rightarrow> string \<Rightarrow> string"
  provisionBuild :: "effect list \<Rightarrow> nat call"
  cancelStagedBuild :: "effect list \<Rightarrow> unit call"
  uploadFileToBuild :: "effect list \<Rightarrow> string \<Rightarrow> string \<Rightarrow> unit call"
  deleteFileFromBuild :: "effect list \<Rightarrow> string \<Rightarrow> unit call"
  queueBuild :: "effect list \<Rightarrow> unit call"
  pollProjectBuildAndDeploy :: "effect list \<Rightarrow> unit call"

text \<open>
  The upload queue (p-queue): the bound on the tasks that run at a time, \<^verbatim>\<open>isPaused\<close>,
  the tasks that were added but not started, and the tasks that were started and have
  not settled, each with what its promise settles to (\<open>Pending\<close>: it never settles).
\<close>

record pqueue =
  concurrency :: nat
  isPaused :: bool
  waiting :: "task list"
  inflight :: "unit promise list"

text \<open>\<^verbatim>\<open>new PQueue({ concurrency })\<close>.\<close>

definition new_PQueue :: "nat \<Rightarrow> pqueue" where
  "new_PQueue c = \<lparr>concurrency = c, isPaused = False, waiting = [], inflight = []\<rparr>"

text \<open>A running queue with a free slot starts a task; an idle queue holds no task.\<close>

definition can_start :: "pqueue \<Rightarrow> bool" where
  "can_start q \<longleftrightarrow> \<not> isPaused q \<and> length (inflight q) < concurrency q"

definition queue_idle :: "pqueue \<Rightarrow> bool" where
  "queue_idle q \<longleftrightarrow> waiting q = [] \<and> inflight q = []"

text \<open>
  The fields of the manager, then the runtime: whether the watcher delivers events to
  the handlers, the timers set and not yet fired or cleared (handle and due time), the
  next fresh handle, the clock in milliseconds, the exit code once \<^verbatim>\<open>process.exit\<close>
  has been called, the trace, the rejections nobody handles, and the number of timer
  callbacks that wait in \<^verbatim>\<open>pauseUploadQueue\<close> for the queue to become idle.
\<close>

record lstate =
  preventUploads :: bool
  mockServers :: bool
  projectSourceDir :: string
  uploadQueue :: pqueue
  standbyChanges :: "standby_change list"
  debouncedBuild :: "nat option"
  currentStagedBuildId :: "nat option"
  watching :: bool
  timers :: "(nat \<times> nat) list"
  nextTimerId :: nat
  now :: nat
  exitCode :: "exit_code option"
  trace :: "effect list"
  unhandled :: "api_error list"
  awaitingIdle :: nat

record options =
  opt_projectSourceDir :: string
  opt_preventUploads :: bool
  opt_mockServers :: bool

subsection \<open>Runtime helpers\<close>

definition emit :: "effect \<Rightarrow> lstate \<Rightarrow> lstate" where
  "emit e st = st\<lparr>trace := trace st @ [e]\<rparr>"

definition process_exit :: "exit_code \<Rightarrow> lstate \<Rightarrow> lstate" where
  "process_exit c st = (emit (ProcessExit c) st)\<lparr>exitCode := Some c\<rparr>"

definition clearTimeout :: "nat \<Rightarrow> lstate \<Rightarrow> lstate" where
  "clearTimeout h st = st\<lparr>timers := filter (\<lambda>t. fst t \<noteq> h) (timers st)\<rparr>"

definition setTimeout :: "nat \<Rightarrow> lstate \<Rightarrow> nat \<times> lstate" where
  "setTimeout delay st =
     (nextTimerId st,
      st\<lparr>timers := timers st @ [(nextTimerId st, now st + delay)],
         nextTimerId := Suc (nextTimerId st)\<rparr>)"

definition note_unhandled :: "'a promise \<Rightarrow> lstate \<Rightarrow> lstate" where
  "note_unhandled p st =
     (case p of Rejected e \<Rightarrow> st\<lparr>unhandled := unhandled st @ [e]\<rparr> | _ \<Rightarrow> st)"

text \<open>JavaScript truthiness of \<^verbatim>\<open>this.currentStagedBuildId\<close>: null and 0 are falsy.\<close>

definition truthy :: "nat option \<Rightarrow> bool" where
  "truthy v = (case v of None \<Rightarrow> False | Some n \<Rightarrow> n \<noteq> 0)"

subsection \<open>The methods\<close>

definition BUILD_DEBOUNCE_TIME :: nat where
  "BUILD_DEBOUNCE_TIME = 2000"

text \<open>
  The field initialisers of the constructor, for options that pass its check (account,
  project configuration and project directory are present); \<^verbatim>\<open>projectSourceDir\<close> is
  the joined path.
\<close>

definition constructor :: "options \<Rightarrow> lstate" where
  "constructor opts =
     \<lparr>preventUploads = opt_preventUploads opts,
      mockServers = opt_mockServers opts,
      projectSourceDir = opt_projectSourceDir opts,
      uploadQueue = new_PQueue 10,
      standbyChanges = [],
      debouncedBuild = None,
      currentStagedBuildId = None,
      watching = False,
      timers = [],
      nextTimerId = 0,
      now = 0,
      exitCode = None,
      trace = [],
      unhandled = [],
      awaitingIdle = 0\<rparr>"

definition updateDevModeStatus :: "string \<Rightarrow> lstate \<Rightarrow> lstate" where
  "updateDevModeStatus langKey st = emit (SpinniesUpdate ''devModeStatus'' langKey) st"

definition hasAnyUnsupportedStandbyChanges :: "lstate \<Rightarrow> bool" where
  "hasAnyUnsupportedStandbyChanges st = list_ex (\<lambda>c. \<not> supported c) (standbyChanges st)"

definition notifyServers :: "change_info \<Rightarrow> bool" where
  "notifyServers changeInfo = False"

definition stopWatching :: "lstate \<Rightarrow> lstate" where
  "stopWatching st = (emit WatcherClose st)\<lparr>watching := False\<rparr>"

definition cleanupServers :: "lstate \<Rightarrow> lstate" where
  "cleanupServers st = st"

definition debounceQueueBuild :: "lstate \<Rightarrow> lstate" where
  "debounceQueueBuild st =
     (let st1 = updateDevModeStatus ''dirty'' st;
          st2 = (case debouncedBuild st1 of
                   Some h \<Rightarrow> clearTimeout h st1
                 | None \<Rightarrow> st1);
          (h, st3) = setTimeout BUILD_DEBOUNCE_TIME st2
      in st3\<lparr>debouncedBuild := Some h\<rparr>)"

text \<open>
  \<^verbatim>\<open>sendChanges\<close>: the client call is returned from inside \<^verbatim>\<open>try\<close> without
  \<^verbatim>\<open>await\<close>, so the handler sees a throw of the call and nothing else: the promise of
  \<^verbatim>\<open>sendChanges\<close> settles as the returned promise does.
\<close>

definition sendChanges :: "env \<Rightarrow> change_info \<Rightarrow> lstate \<Rightarrow> unit promise \<times> lstate" where
  "sendChanges env ci st =
     (let st1 = emit (SpinniesAdd (filePath ci) (''Uploading change for '' @ remotePath ci)) st
      in if event ci = Add \<or> event ci = Change then
           (let st2 = emit (CallUploadFileToBuild (filePath ci) (remotePath ci)) st1
            in case uploadFileToBuild env (trace st1) (filePath ci) (remotePath ci) of
                 SyncThrow err \<Rightarrow> (Fulfilled (), emit (LoggerDebugError err) st2)
               | Promise p \<Rightarrow> (p, st2))
         else if event ci = Unlink \<or> event ci = UnlinkDir then
           (let st2 = emit (CallDeleteFileFromBuild (remotePath ci)) st1
            in case deleteFileFromBuild env (trace st1) (remotePath ci) of
                 SyncThrow err \<Rightarrow> (Fulfilled (), emit (LoggerDebugError err) st2)
               | Promise p \<Rightarrow> (p, st2))
         else (Fulfilled (), st1))"

text \<open>Running a task of the queue; the second closure does not await \<^verbatim>\<open>sendChanges\<close>.\<close>

fun run_task :: "env \<Rightarrow> task \<Rightarrow> lstate \<Rightarrow> unit promise \<times> lstate" where
  "run_task env (WatchTask ci) st = sendChanges env ci st"
| "run_task env (StandbyTask ci) st =
     (let st1 = (if \<not> isPaused (uploadQueue st) then debounceQueueBuild st else st);
          (p, st2) = sendChanges env ci st1
      in (Fulfilled (), note_unhandled p st2))"

text \<open>
  The client call that \<^verbatim>\<open>sendChanges\<close> makes for a change. The promise of
  \<^verbatim>\<open>sendChanges\<close> is the promise this call returns; a call that throws leaves
  \<^verbatim>\<open>sendChanges\<close> fulfilled.
\<close>

definition awaited_call :: "env \<Rightarrow> change_info \<Rightarrow> lstate \<Rightarrow> unit call" where
  "awaited_call env ci st =
     (let tr = trace st @ [SpinniesAdd (filePath ci) (''Uploading change for '' @ remotePath ci)]
      in if event ci = Add \<or> event ci = Change
         then uploadFileToBuild env tr (filePath ci) (remotePath ci)
         else deleteFileFromBuild env tr (remotePath ci))"

text \<open>
  A started task gives its slot back at once unless it awaits a promise of the client:
  the closure of \<^verbatim>\<open>flushStandbyChanges\<close> awaits nothing, the closure of
  \<^verbatim>\<open>handleWatchEvent\<close> awaits \<^verbatim>\<open>sendChanges\<close>.
\<close>

fun settles_at_once :: "env \<Rightarrow> task \<Rightarrow> lstate \<Rightarrow> bool" where
  "settles_at_once env (StandbyTask ci) st = True"
| "settles_at_once env (WatchTask ci) st =
     (case awaited_call env ci st of SyncThrow e \<Rightarrow> True | Promise p \<Rightarrow> False)"

text \<open>Starting a task: it runs, and it keeps a slot if it has not settled.\<close>

definition start_task :: "env \<Rightarrow> task \<Rightarrow> lstate \<Rightarrow> unit promise \<times> lstate" where
  "start_task env t st =
     (case run_task env t st of
        (p, st1) \<Rightarrow>
          if settles_at_once env t st then (p, st1)
          else (p, st1\<lparr>uploadQueue :=
                        (uploadQueue st1)\<lparr>inflight := inflight (uploadQueue st1) @ [p]\<rparr>\<rparr>))"

text \<open>
  The queue tries to start the task at the head of the waiting tasks, and again when
  the started task has settled at once. The result: the promises of the tasks started,
  the tasks still waiting, the state.
\<close>

fun try_start :: "env \<Rightarrow> task list \<Rightarrow> lstate \<Rightarrow> unit promise list \<times> task list \<times> lstate" where
  "try_start env [] st = ([], [], st)"
| "try_start env (t # ts) st =
     (if can_start (uploadQueue st) then
        (case start_task env t st of
           (p, st1) \<Rightarrow>
             if settles_at_once env t st
             then (case try_start env ts st1 of (ps, ws, st2) \<Rightarrow> (p # ps, ws, st2))
             else ([p], ts, st1))
      else ([], t # ts, st))"

text \<open>The loop of \<^verbatim>\<open>uploadQueue.start\<close>: tasks are started as long as a slot is free.\<close>

fun process_queue ::
  "env \<Rightarrow> task list \<Rightarrow> lstate \<Rightarrow> unit promise list \<times> task list \<times> lstate" where
  "process_queue env [] st = ([], [], st)"
| "process_queue env (t # ts) st =
     (if can_start (uploadQueue st) then
        (case start_task env t st of
           (p, st1) \<Rightarrow>
             (case process_queue env ts st1 of (ps, ws, st2) \<Rightarrow> (p # ps, ws, st2)))
      else ([], t # ts, st))"

text \<open>Rejections of promises that have no handler.\<close>

definition note_all :: "unit promise list \<Rightarrow> lstate \<Rightarrow> lstate" where
  "note_all ps st = fold note_unhandled ps st"

text \<open>
  \<^verbatim>\<open>uploadQueue.add\<close>: the task joins the waiting tasks and the queue tries to start
  one. The promise of \<^verbatim>\<open>add\<close> is the promise of the task if the task was started, and
  is pending otherwise; the promises of tasks that were added earlier have no handler.
\<close>

definition queue_add :: "env \<Rightarrow> task \<Rightarrow> lstate \<Rightarrow> unit promise \<times> lstate" where
  "queue_add env t st =
     (let st1 = emit (QueueAdd t) st
      in case try_start env (waiting (uploadQueue st1) @ [t]) st1 of
           (ps, ws, st2) \<Rightarrow>
             (let st3 = st2\<lparr>uploadQueue := (uploadQueue st2)\<lparr>waiting := ws\<rparr>\<rparr>
              in if ws = [] then
                   (case rev ps of
                      [] \<Rightarrow> (Pending, st3)
                    | p # qs \<Rightarrow> (p, note_all (rev qs) st3))
                 else (Pending, note_all ps st3)))"

text \<open>\<^verbatim>\<open>uploadQueue.addAll\<close> is \<^verbatim>\<open>Promise.all\<close> over \<^verbatim>\<open>add\<close>.\<close>

fun queue_addAll :: "env \<Rightarrow> task list \<Rightarrow> lstate \<Rightarrow> unit promise list \<times> lstate" where
  "queue_addAll env [] st = ([], st)"
| "queue_addAll env (t # ts) st =
     (let (p, st1) = queue_add env t st;
          (ps, st2) = queue_addAll env ts st1
      in (p # ps, st2))"

fun is_rejected :: "'a promise \<Rightarrow> bool" where
  "is_rejected (Rejected e) = True"
| "is_rejected p = False"

definition promise_all :: "unit promise list \<Rightarrow> unit promise" where
  "promise_all ps =
     (case find is_rejected ps of
        Some p \<Rightarrow> p
      | None \<Rightarrow> if Pending \<in> set ps then Pending else Fulfilled ())"

text \<open>
  \<^verbatim>\<open>uploadQueue.start\<close>: a paused queue runs again and starts what it has slots for;
  on a queue that runs the call does nothing.
\<close>

definition queue_start :: "env \<Rightarrow> lstate \<Rightarrow> lstate" where
  "queue_start env st =
     (let st1 = emit QueueStart st
      in if \<not> isPaused (uploadQueue st1) then st1
         else (let st2 = st1\<lparr>uploadQueue := (uploadQueue st1)\<lparr>isPaused := False\<rparr>\<rparr>
               in case process_queue env (waiting (uploadQueue st2)) st2 of
                    (ps, ws, st3) \<Rightarrow>
                      note_all ps (st3\<lparr>uploadQueue := (uploadQueue st3)\<lparr>waiting := ws\<rparr>\<rparr>)))"

text \<open>A task has settled and its slot is free: the queue tries to start the next one.\<close>

definition queue_next :: "env \<Rightarrow> lstate \<Rightarrow> lstate" where
  "queue_next env st =
     (case try_start env (waiting (uploadQueue st)) st of
        (ps, ws, st1) \<Rightarrow>
          note_all ps (st1\<lparr>uploadQueue := (uploadQueue st1)\<lparr>waiting := ws\<rparr>\<rparr>))"

definition startUploadQueue :: "env \<Rightarrow> lstate \<Rightarrow> lstate" where
  "startUploadQueue env st =
     (let st1 = queue_start env st;
          st2 = emit SpinniesRemoveAll st1;
          st3 = emit (SpinniesAdd ''devModeRunning'' ''running'') st2;
          st4 = (if preventUploads st3
                 then emit (SpinniesAdd ''preventUploadsBanner'' ''preventUploadsBanner'') st3
                 else st3);
          st5 = emit (SpinniesAdd ''devModeStatus'' ''status.clean'') st4;
          st6 = emit (SpinniesAdd ''quitMessage'' ''quitHelper'') st5
      in emit (SpinniesAdd ''lineSeparator'' (replicate 50 (CHR ''-''))) st6)"

text \<open>
  \<^verbatim>\<open>pauseUploadQueue\<close>: \<^verbatim>\<open>onIdle()\<close> settles when nothing waits and no started task
  is unsettled. The result tells whether that is so when the queue is paused, that is,
  whether the caller goes on at once.
\<close>

definition pauseUploadQueue :: "lstate \<Rightarrow> bool \<times> lstate" where
  "pauseUploadQueue st =
     (let st1 = emit SpinniesRemoveAll st;
          st2 = emit (SpinniesAdd ''uploading'' ''upload.uploadingChanges'') st1;
          st3 = emit QueuePause (st2\<lparr>uploadQueue := (uploadQueue st2)\<lparr>isPaused := True\<rparr>\<rparr>)
      in (queue_idle (uploadQueue st3), st3))"

definition addChangeToStandbyQueue :: "env \<Rightarrow> standby_change \<Rightarrow> lstate \<Rightarrow> lstate" where
  "addChangeToStandbyQueue env c st =
     (if (event (change c) = Add \<or> event (change c) = Change)
         \<and> \<not> isAllowedExtension env (filePath (change c))
      then emit (LoggerDebug (''Extension not allowed: '' @ filePath (change c))) st
      else if shouldIgnoreFile env (filePath (change c)) True
      then emit (LoggerDebug (''File ignored: '' @ filePath (change c))) st
      else st\<lparr>standbyChanges := standbyChanges st @ [c]\<rparr>)"

definition flushStandbyChanges :: "env \<Rightarrow> lstate \<Rightarrow> unit promise \<times> lstate" where
  "flushStandbyChanges env st =
     (if standbyChanges st \<noteq> [] then
        (case queue_addAll env (map (\<lambda>c. StandbyTask (change c)) (standbyChanges st)) st of
           (ps, st1) \<Rightarrow>
             (case promise_all ps of
                Fulfilled u \<Rightarrow> (Fulfilled (), st1\<lparr>standbyChanges := []\<rparr>)
              | Rejected e \<Rightarrow> (Rejected e, st1)
              | Pending \<Rightarrow> (Pending, st1)))
      else (Fulfilled (), st))"

text \<open>
  \<^verbatim>\<open>createNewStagingBuild\<close>. After \<^verbatim>\<open>process.exit\<close> the promise never settles. A
  failure of the cancel call inside the handler leaves the method as a rejection.
\<close>

definition createNewStagingBuild :: "env \<Rightarrow> lstate \<Rightarrow> unit promise \<times> lstate" where
  "createNewStagingBuild env st =
     (let st1 = emit CallProvisionBuild st
      in case await (provisionBuild env (trace st)) of
           None \<Rightarrow> (Pending, st1)
         | Some (Inr buildId) \<Rightarrow> (Fulfilled (), st1\<lparr>currentStagedBuildId := Some buildId\<rparr>)
         | Some (Inl err) \<Rightarrow>
             (let st2 = emit (LoggerDebugError err) st1
              in if isSpecifiedError err PROJECT_LOCKED then
                   (let st3 = emit CallCancelStagedBuild st2
                    in case await (cancelStagedBuild env (trace st2)) of
                         None \<Rightarrow> (Pending, st3)
                       | Some (Inl e) \<Rightarrow> (Rejected e, st3)
                       | Some (Inr u) \<Rightarrow>
                           (Pending,
                            process_exit ERROR
                              (emit (LoggerLog ''previousStagingBuildCancelled'') st3)))
                 else (Pending, process_exit ERROR st2)))"

text \<open>\<^verbatim>\<open>stop\<close>: every path that leaves the cancel call ends in \<^verbatim>\<open>process.exit\<close>.\<close>

definition stop :: "env \<Rightarrow> lstate \<Rightarrow> unit promise \<times> lstate" where
  "stop env st =
     (let st1 = emit SpinniesRemoveAll st;
          st2 = emit (SpinniesAdd ''cleanupMessage'' ''exitingStart'') st1;
          st3 = stopWatching st2;
          st4 = cleanupServers st3;
          finish = (\<lambda>code s.
             (Pending,
              process_exit code
                (if code = SUCCESS
                 then emit (SpinniesSucceed ''cleanupMessage'' ''exitingSucceed'') s
                 else emit (SpinniesFail ''cleanupMessage'' ''exitingFail'') s)))
      in if truthy (currentStagedBuildId st4) then
           (let st5 = emit CallCancelStagedBuild st4
            in case await (cancelStagedBuild env (trace st4)) of
                 None \<Rightarrow> (Pending, st5)
               | Some (Inr u) \<Rightarrow> finish SUCCESS st5
               | Some (Inl err) \<Rightarrow>
                   (if \<not> isSpecifiedError err BUILD_NOT_IN_PROGRESS
                    then finish ERROR (emit (LogApiErrorInstance err) st5)
                    else finish SUCCESS st5))
         else finish SUCCESS st4)"

text \<open>
  \<^verbatim>\<open>startWatching\<close>: the four listeners are registered after the staging build exists,
  unless the process has exited or the provisioning has not returned.
\<close>

definition startWatching :: "env \<Rightarrow> lstate \<Rightarrow> unit promise \<times> lstate" where
  "startWatching env st =
     (if \<not> preventUploads st then
        (case createNewStagingBuild env st of
           (Fulfilled u, st1) \<Rightarrow> (Fulfilled (), st1\<lparr>watching := True\<rparr>)
         | (Rejected e, st1) \<Rightarrow> (Rejected e, st1)
         | (Pending, st1) \<Rightarrow> (Pending, st1))
      else (Fulfilled (), st\<lparr>watching := True\<rparr>))"

text \<open>\<^verbatim>\<open>startServers\<close> does nothing yet; its result is not used.\<close>

definition startServers :: "lstate \<Rightarrow> lstate" where
  "startServers st = st"

definition start :: "env \<Rightarrow> lstate \<Rightarrow> unit promise \<times> lstate" where
  "start env st =
     (let st1 = st\<lparr>uploadQueue := new_PQueue 10\<rparr>;
          st2 = startUploadQueue env st1;
          st3 = startServers st2
      in startWatching env st3)"

definition handleWatchEvent ::
  "env \<Rightarrow> string \<Rightarrow> watch_event \<Rightarrow> lstate \<Rightarrow> unit promise \<times> lstate" where
  "handleWatchEvent env fp ev st =
     (let changeInfo = \<lparr>event = ev, filePath = fp,
                        remotePath = relative env (projectSourceDir st) fp\<rparr>;
          isSupportedChange = notifyServers changeInfo
      in if isSupportedChange then
           (Fulfilled (),
            addChangeToStandbyQueue env \<lparr>change = changeInfo, supported = True\<rparr>
              (updateDevModeStatus ''supportedChange'' st))
         else if preventUploads st then
           (Fulfilled (),
            emit (SpinniesAdd fp (''[WARNING] Upload prevented for '' @ remotePath changeInfo))
              (updateDevModeStatus ''uploadPrevented'' st))
         else if isPaused (uploadQueue st) then
           (Fulfilled (),
            if find (\<lambda>c. filePath (change c) = fp) (standbyChanges st) = None
            then addChangeToStandbyQueue env \<lparr>change = changeInfo, supported = False\<rparr> st
            else st)
         else
           (case flushStandbyChanges env st of
              (Fulfilled u, st1) \<Rightarrow>
                (let st2 = (if \<not> isPaused (uploadQueue st1)
                            then debounceQueueBuild st1 else st1)
                 in queue_add env (WatchTask changeInfo) st2)
            | (Rejected e, st1) \<Rightarrow> (Rejected e, st1)
            | (Pending, st1) \<Rightarrow> (Pending, st1)))"

text \<open>
  The function given to \<^verbatim>\<open>setTimeout\<close> in \<^verbatim>\<open>debounceQueueBuild\<close>, in two parts:
  what follows \<^verbatim>\<open>await this.pauseUploadQueue()\<close>, and the whole. The calls of
  \<^verbatim>\<open>this.stop()\<close> and of \<^verbatim>\<open>this.flushStandbyChanges()\<close> are not awaited. A callback
  that finds the queue busy waits until the queue is idle.
\<close>

definition afterPause :: "env \<Rightarrow> lstate \<Rightarrow> unit promise \<times> lstate" where
  "afterPause env st1 =
     (let st2 = emit CallQueueBuild st1
      in case await (queueBuild env (trace st1)) of
           None \<Rightarrow> (Pending, st2)
         | Some (Inl err) \<Rightarrow>
             (let st3 = emit (LoggerDebugError err) st2
              in if isSpecifiedError err MISSING_PROJECT_PROVISION then
                   (case stop env (emit (LoggerLog ''logs.cancelledFromUI'') st3) of
                      (p, st4) \<Rightarrow> (Fulfilled (), note_unhandled p st4))
                 else (Fulfilled (), emit (LogApiErrorInstance err) st3))
         | Some (Inr u) \<Rightarrow>
             (let st3 = emit (CallPollProjectBuildAndDeploy (currentStagedBuildId st2)) st2
              in case await (pollProjectBuildAndDeploy env (trace st2)) of
                   None \<Rightarrow> (Pending, st3)
                 | Some (Inl e) \<Rightarrow> (Rejected e, st3)
                 | Some (Inr u') \<Rightarrow>
                     (case createNewStagingBuild env st3 of
                        (Fulfilled u'', st4) \<Rightarrow>
                          (let st5 = startUploadQueue env st4
                           in if hasAnyUnsupportedStandbyChanges st5 then
                                (case flushStandbyChanges env st5 of
                                   (p, st6) \<Rightarrow> (Fulfilled (), note_unhandled p st6))
                              else (Fulfilled (), updateDevModeStatus ''clean'' st5))
                      | (Rejected e, st4) \<Rightarrow> (Rejected e, st4)
                      | (Pending, st4) \<Rightarrow> (Pending, st4))))"

definition debouncedBuildCallback :: "env \<Rightarrow> lstate \<Rightarrow> unit promise \<times> lstate" where
  "debouncedBuildCallback env st =
     (case pauseUploadQueue st of
        (False, st1) \<Rightarrow> (Pending, st1\<lparr>awaitingIdle := Suc (awaitingIdle st1)\<rparr>)
      | (True, st1) \<Rightarrow> afterPause env st1)"

subsection \<open>The event loop\<close>

text \<open>
  What reaches the manager from outside: the watcher reports a path, time passes, the
  command line calls \<^verbatim>\<open>stop()\<close>, or the call awaited by a started task settles. The
  watcher was created with \<^verbatim>\<open>ignored: file => shouldIgnoreFile(file)\<close>, and its
  listeners discard the promise of \<^verbatim>\<open>handleWatchEvent\<close>. A process that has exited runs
  nothing.
\<close>

datatype input = Watch string watch_event | Elapse nat | Stop | Settle nat

definition fire :: "env \<Rightarrow> lstate \<Rightarrow> lstate" where
  "fire env st =
     (case find (\<lambda>t. snd t \<le> now st) (timers st) of
        None \<Rightarrow> st
      | Some t \<Rightarrow>
          (case debouncedBuildCallback env (st\<lparr>timers := remove1 t (timers st)\<rparr>) of
             (p, st1) \<Rightarrow> note_unhandled p st1))"

text \<open>The callbacks that waited for the idle queue go on, one after the other.\<close>

fun resume :: "env \<Rightarrow> nat \<Rightarrow> lstate \<Rightarrow> lstate" where
  "resume env 0 st = st"
| "resume env (Suc n) st =
     (if exitCode st \<noteq> None then st
      else resume env n (case afterPause env st of (p, st1) \<Rightarrow> note_unhandled p st1))"

text \<open>
  The started task number \<open>i\<close> settles, unless it never does: its slot is free, the
  queue tries to start the next task, and a queue that is idle now tells those who wait
  for it.
\<close>

definition settle :: "env \<Rightarrow> nat \<Rightarrow> lstate \<Rightarrow> lstate" where
  "settle env i st =
     (let q = uploadQueue st
      in if i < length (inflight q) \<and> inflight q ! i \<noteq> Pending then
           (let st1 = queue_next env
                        (st\<lparr>uploadQueue :=
                              q\<lparr>inflight := take i (inflight q) @ drop (Suc i) (inflight q)\<rparr>\<rparr>)
            in if queue_idle (uploadQueue st1)
               then resume env (awaitingIdle st1) (st1\<lparr>awaitingIdle := 0\<rparr>)
               else st1)
         else st)"

fun step :: "env \<Rightarrow> lstate \<Rightarrow> input \<Rightarrow> lstate" where
  "step env st (Watch fp ev) =
     (if exitCode st \<noteq> None then st
      else if watching st \<and> \<not> shouldIgnoreFile env fp False
      then (case handleWatchEvent env fp ev st of (p, st1) \<Rightarrow> note_unhandled p st1)
      else st)"
| "step env st (Elapse n) =
     (if exitCode st \<noteq> None then st
      else fire env (st\<lparr>now := now st + n\<rparr>))"
| "step env st Stop =
     (if exitCode st \<noteq> None then st
      else (case stop env st of (p, st1) \<Rightarrow> note_unhandled p st1))"
| "step env st (Settle i) =
     (if exitCode st \<noteq> None then st
      else settle env i st)"

definition run :: "env \<Rightarrow> lstate \<Rightarrow> input list \<Rightarrow> lstate" where
  "run env st inputs = foldl (step env) st inputs"

subsection \<open>Observations on a trace and on a state\<close>

text \<open>The tasks handed to the upload queue, in the order of \<^verbatim>\<open>add\<close>.\<close>

fun submission :: "effect \<Rightarrow> task list" where
  "submission (QueueAdd t) = [t]"
| "submission e = []"

definition submissions :: "effect list \<Rightarrow> task list" where
  "submissions tr = concat (map submission tr)"

text \<open>The upload and delete calls made on the build service.\<close>

fun is_file_call :: "effect \<Rightarrow> bool" where
  "is_file_call (CallUploadFileToBuild fp rp) = True"
| "is_file_call (CallDeleteFileFromBuild rp) = True"
| "is_file_call e = False"

definition file_calls :: "effect list \<Rightarrow> effect list" where
  "file_calls tr = filter is_file_call tr"

text \<open>The one call that \<^verbatim>\<open>sendChanges\<close> makes for a change.\<close>

definition call_of :: "change_info \<Rightarrow> effect" where
  "call_of ci = (if event ci = Add \<or> event ci = Change
                 then CallUploadFileToBuild (filePath ci) (remotePath ci)
                 else CallDeleteFileFromBuild (remotePath ci))"

text \<open>The object \<^verbatim>\<open>changeInfo\<close> that \<^verbatim>\<open>handleWatchEvent\<close> builds.\<close>

definition ci_of :: "env \<Rightarrow> lstate \<Rightarrow> string \<Rightarrow> watch_event \<Rightarrow> change_info" where
  "ci_of env st fp ev =
     \<lparr>event = ev, filePath = fp, remotePath = relative env (projectSourceDir st) fp\<rparr>"

text \<open>The change a task of the queue carries.\<close>

fun task_change :: "task \<Rightarrow> change_info" where
  "task_change (WatchTask ci) = ci"
| "task_change (StandbyTask ci) = ci"

fun is_exit :: "effect \<Rightarrow> bool" where
  "is_exit (ProcessExit c) = True"
| "is_exit e = False"

text \<open>How often the remote build has been queued.\<close>

definition qb_count :: "lstate \<Rightarrow> nat" where
  "qb_count st = count_list (trace st) CallQueueBuild"

text \<open>
  How often the timer callback has run: it begins by pausing the queue, and nothing else
  pauses the queue.
\<close>

definition pause_count :: "lstate \<Rightarrow> nat" where
  "pause_count st = count_list (trace st) QueuePause"

text \<open>
  The timer table holds at most one timer, and \<^verbatim>\<open>this.debouncedBuild\<close> is its handle.
\<close>

definition timer_inv :: "lstate \<Rightarrow> bool" where
  "timer_inv st \<longleftrightarrow>
     length (timers st) \<le> 1
   \<and> list_all (\<lambda>t. debouncedBuild st = Some (fst t)) (timers st)"

text \<open>
  Arming again and again: before each further call of \<^verbatim>\<open>debounceQueueBuild\<close> the
  given number of milliseconds passes.
\<close>

fun rearm :: "env \<Rightarrow> nat list \<Rightarrow> lstate \<Rightarrow> lstate" where
  "rearm env [] st = st"
| "rearm env (d # ds) st = rearm env ds (debounceQueueBuild (step env st (Elapse d)))"

text \<open>A live process whose debounce timer was armed at this very moment.\<close>

definition armed :: "lstate \<Rightarrow> bool" where
  "armed st \<longleftrightarrow>
     exitCode st = None
   \<and> timers st = [(the (debouncedBuild st), now st + BUILD_DEBOUNCE_TIME)]
   \<and> debouncedBuild st \<noteq> None"

definition unsupported_only :: "lstate \<Rightarrow> bool" where
  "unsupported_only st = list_all (\<lambda>c. \<not> supported c) (standbyChanges st)"

text \<open>Two states that differ at most in the fields the upload pipeline writes.\<close>

definition pipeline_frame :: "lstate \<Rightarrow> lstate \<Rightarrow> bool" where
  "pipeline_frame st st' \<longleftrightarrow>
     preventUploads st' = preventUploads st \<and> mockServers st' = mockServers st
   \<and> projectSourceDir st' = projectSourceDir st
   \<and> isPaused (uploadQueue st') = isPaused (uploadQueue st)
   \<and> concurrency (uploadQueue st') = concurrency (uploadQueue st)
   \<and> awaitingIdle st' = awaitingIdle st
   \<and> standbyChanges st' = standbyChanges st
   \<and> currentStagedBuildId st' = currentStagedBuildId st
   \<and> watching st' = watching st \<and> now st' = now st \<and> exitCode st' = exitCode st"

text \<open>
  What every method but the timer callback keeps: the timer invariant, the entries of
  the buffer unsupported, the number of times the build was queued and the queue paused.
\<close>

definition keeps :: "lstate \<Rightarrow> lstate \<Rightarrow> bool" where
  "keeps st st' \<longleftrightarrow>
     (timer_inv st \<longrightarrow> timer_inv st')
   \<and> (unsupported_only st \<longrightarrow> unsupported_only st')
   \<and> qb_count st' = qb_count st
   \<and> pause_count st' = pause_count st"

text \<open>
  A queue that never holds more started tasks than it has slots and that lets no task
  wait while it could start one.
\<close>

definition orderly :: "pqueue \<Rightarrow> bool" where
  "orderly q \<longleftrightarrow> length (inflight q) \<le> concurrency q \<and> (can_start q \<longrightarrow> waiting q = [])"

text \<open>
  What holds between two handlers: at most one timer, and none while the queue is paused;
  no supported entry in the buffer; an orderly queue of ten slots; at most one timer
  callback that waits for the idle queue, and none while the queue runs; an empty buffer
  while the queue runs.
\<close>

definition steady :: "lstate \<Rightarrow> bool" where
  "steady st \<longleftrightarrow>
     timer_inv st \<and> unsupported_only st
   \<and> concurrency (uploadQueue st) = 10 \<and> orderly (uploadQueue st)
   \<and> awaitingIdle st \<le> 1
   \<and> (isPaused (uploadQueue st) \<longrightarrow> timers st = [])
   \<and> (\<not> isPaused (uploadQueue st) \<longrightarrow> standbyChanges st = [] \<and> awaitingIdle st = 0)"

text \<open>The state in which the timer callback goes on after \<^verbatim>\<open>pauseUploadQueue\<close>.\<close>

definition paused_idle :: "lstate \<Rightarrow> bool" where
  "paused_idle st \<longleftrightarrow>
     steady st \<and> isPaused (uploadQueue st) \<and> queue_idle (uploadQueue st)
   \<and> awaitingIdle st = 0"

text \<open>A trace without provisioning, without queue submissions, without file calls.\<close>

definition quiet :: "effect list \<Rightarrow> bool" where
  "quiet tr \<longleftrightarrow> CallProvisionBuild \<notin> set tr \<and> submissions tr = [] \<and> file_calls tr = []"

definition prevented :: "lstate \<Rightarrow> bool" where
  "prevented st \<longleftrightarrow>
     preventUploads st \<and> timers st = [] \<and> quiet (trace st)
   \<and> queue_idle (uploadQueue st) \<and> awaitingIdle st = 0"

subsection \<open>Concrete collaborators and states\<close>

text \<open>
  A project under \<^verbatim>\<open>/proj/src\<close> and a build service that accepts every call; the
  variants below change one answer each.
\<close>

definition opts0 :: options where
  "opts0 = \<lparr>opt_projectSourceDir = ''/proj/src'', opt_preventUploads = False,
            opt_mockServers = False\<rparr>"

definition opts_prevent :: options where
  "opts_prevent = opts0\<lparr>opt_preventUploads := True\<rparr>"

definition env0 :: env where
  "env0 = \<lparr>isAllowedExtension = (\<lambda>p. p \<in> set [''/proj/src/a.html'', ''/proj/src/b.css'']),
           shouldIgnoreFile = (\<lambda>p b. False),
           relative = (\<lambda>d p. drop (Suc (length d)) p),
           provisionBuild = (\<lambda>tr. Promise (Fulfilled (Suc (count_list tr CallProvisionBuild)))),
           cancelStagedBuild = (\<lambda>tr. Promise (Fulfilled ())),
           uploadFileToBuild = (\<lambda>tr fp rp. Promise (Fulfilled ())),
           deleteFileFromBuild = (\<lambda>tr rp. Promise (Fulfilled ())),
           queueBuild = (\<lambda>tr. Promise (Fulfilled ())),
           pollProjectBuildAndDeploy = (\<lambda>tr. Promise (Fulfilled ()))\<rparr>"

text \<open>The remote build has already gone when \<^verbatim>\<open>stop()\<close> cancels it.\<close>

definition env_stop :: env where
  "env_stop = env0\<lparr>cancelStagedBuild := (\<lambda>tr. Promise (Rejected BUILD_NOT_IN_PROGRESS))\<rparr>"

text \<open>
  The project is locked at the first provisioning; a second provisioning would succeed.
\<close>

definition env_locked :: env where
  "env_locked = env0\<lparr>provisionBuild := (\<lambda>tr. if CallProvisionBuild \<in> set tr
                          then Promise (Fulfilled 7) else Promise (Rejected PROJECT_LOCKED))\<rparr>"

text \<open>The project is locked, and the cancel of the stale build fails as well.\<close>

definition env_locked_twice :: env where
  "env_locked_twice = env_locked\<lparr>cancelStagedBuild := (\<lambda>tr. Promise (Rejected OTHER_ERROR))\<rparr>"

text \<open>Provisioning fails for a reason other than a lock.\<close>

definition env_down :: env where
  "env_down = env0\<lparr>provisionBuild := (\<lambda>tr. Promise (Rejected OTHER_ERROR))\<rparr>"

text \<open>Every upload is answered by a promise that rejects.\<close>

definition env_reject :: env where
  "env_reject = env0\<lparr>uploadFileToBuild := (\<lambda>tr fp rp. Promise (Rejected OTHER_ERROR))\<rparr>"

text \<open>The deployment has not finished: the poll is still pending.\<close>

definition env_deploying :: env where
  "env_deploying = env0\<lparr>pollProjectBuildAndDeploy := (\<lambda>tr. Promise Pending)\<rparr>"

text \<open>A started manager that holds the staged build 1.\<close>

definition st_built :: lstate where
  "st_built = (constructor opts0)\<lparr>currentStagedBuildId := Some 1, watching := True\<rparr>"

definition st_running :: lstate where
  "st_running = snd (start env0 (constructor opts0))"

definition st_prevent :: lstate where
  "st_prevent = snd (start env0 (constructor opts_prevent))"

text \<open>
  One file was added and uploaded, the debounce window passed, the build was queued, and
  a change of another file arrived while the deployment was polled.
\<close>

definition st_deploying :: lstate where
  "st_deploying =
     run env_deploying st_running
       [Watch ''/proj/src/a.html'' Add, Settle 0, Elapse 2000,
        Watch ''/proj/src/b.css'' Change]"

text \<open>One file was added; its upload has not settled.\<close>

definition st_uploading :: lstate where
  "st_uploading = step env0 st_running (Watch ''/proj/src/a.html'' Add)"

text \<open>A running manager of the project with \<open>n\<close> uploads in flight and nothing else.\<close>

definition filling :: "nat \<Rightarrow> lstate \<Rightarrow> bool" where
  "filling n st \<longleftrightarrow>
     exitCode st = None \<and> watching st \<and> \<not> preventUploads st
   \<and> projectSourceDir st = ''/proj/src'' \<and> standbyChanges st = []
   \<and> uploadQueue st = \<lparr>concurrency = 10, isPaused = False, waiting = [],
                          inflight = replicate n (Fulfilled ())\<rparr>"

text \<open>Ten changes of one file were reported; none of the ten uploads has settled.\<close>

definition st_full :: lstate where
  "st_full = run env0 st_running (replicate 10 (Watch ''/proj/src/a.html'' Change))"

definition ci_a :: change_info where
  "ci_a = \<lparr>event = Add, filePath = ''/proj/src/a.html'', remotePath = ''a.html''\<rparr>"

definition ci_b :: change_info where
  "ci_b = \<lparr>event = Unlink, filePath = ''/proj/src/b.css'', remotePath = ''b.css''\<rparr>"

text \<open>
  A running manager whose buffer holds two entries, as the timer callback finds it when
  it has started the queue again.
\<close>

definition st_buffered :: lstate where
  "st_buffered =
     st_running\<lparr>standbyChanges := [\<lparr>change = ci_a, supported = False\<rparr>,
                                    \<lparr>change = ci_b, supported = False\<rparr>]\<rparr>"

section \<open>Properties\<close>

lemmas rt_defs = emit_def process_exit_def clearTimeout_def setTimeout_def note_unhandled_def
  updateDevModeStatus_def stopWatching_def cleanupServers_def startServers_def

lemmas queue_defs = queue_add_def queue_start_def queue_next_def start_task_def
  awaited_call_def can_start_def queue_idle_def new_PQueue_def note_all_def settle_def

lemmas all_defs = start_def startUploadQueue_def startWatching_def
  createNewStagingBuild_def constructor_def sendChanges_def handleWatchEvent_def
  flushStandbyChanges_def debounceQueueBuild_def notifyServers_def
  BUILD_DEBOUNCE_TIME_def addChangeToStandbyQueue_def debouncedBuildCallback_def
  afterPause_def pauseUploadQueue_def fire_def run_def stop_def
  hasAnyUnsupportedStandbyChanges_def isSpecifiedError_def truthy_def promise_all_def
  Let_def queue_defs

subsection \<open>Traces and frames\<close>

lemma submissions_simps [simp]:
  "submissions [] = []"
  "submissions (xs @ ys) = submissions xs @ submissions ys"
  "submissions (e # xs) = submission e @ submissions xs"
  by (simp_all add: submissions_def)

lemma file_calls_simps [simp]:
  "file_calls [] = []"
  "file_calls (xs @ ys) = file_calls xs @ file_calls ys"
  "file_calls (e # xs) = (if is_file_call e then e # file_calls xs else file_calls xs)"
  by (simp_all add: file_calls_def)

lemma pipeline_frame_refl [simp]: "pipeline_frame st st"
  by (simp add: pipeline_frame_def)

lemma pipeline_frame_trans:
  "pipeline_frame st st1 \<Longrightarrow> pipeline_frame st1 st2 \<Longrightarrow> pipeline_frame st st2"
  by (simp add: pipeline_frame_def)

lemma keeps_refl [simp]: "keeps st st"
  by (simp add: keeps_def)

lemma keeps_trans: "keeps st st1 \<Longrightarrow> keeps st1 st2 \<Longrightarrow> keeps st st2"
  by (simp add: keeps_def)

text \<open>The observations read the timers, the buffer and the trace only.\<close>

lemma keeps_fields:
  assumes "timers st' = timers st" and "debouncedBuild st' = debouncedBuild st"
    and "standbyChanges st' = standbyChanges st" and "trace st' = trace st"
  shows "keeps st st'"
  using assms by (simp add: keeps_def timer_inv_def unsupported_only_def qb_count_def
      pause_count_def)

lemma keeps_emit: "e \<noteq> CallQueueBuild \<Longrightarrow> e \<noteq> QueuePause \<Longrightarrow> keeps st (emit e st)"
  by (simp add: keeps_def emit_def timer_inv_def unsupported_only_def qb_count_def
      pause_count_def)

lemma note_unhandled_eq: "note_unhandled p st = st\<lparr>unhandled := unhandled (note_unhandled p st)\<rparr>"
  by (simp add: note_unhandled_def split: promise.splits)

lemma note_all_eq: "note_all ps st = st\<lparr>unhandled := unhandled (note_all ps st)\<rparr>"
proof (induction ps arbitrary: st)
  case Nil
  show ?case by (simp add: note_all_def)
next
  case (Cons p ps)
  have "note_all (p # ps) st = note_all ps (note_unhandled p st)"
    by (simp add: note_all_def)
  also have "\<dots> = (note_unhandled p st)\<lparr>unhandled := unhandled (note_all ps (note_unhandled p st))\<rparr>"
    by (rule Cons.IH)
  also have "\<dots> = st\<lparr>unhandled := unhandled (note_all ps (note_unhandled p st))\<rparr>"
    by (subst note_unhandled_eq) simp
  finally show ?case
    by (simp add: note_all_def)
qed

lemma note_unhandled_fields [simp]:
  "trace (note_unhandled p st) = trace st"
  "uploadQueue (note_unhandled p st) = uploadQueue st"
  "exitCode (note_unhandled p st) = exitCode st"
  "standbyChanges (note_unhandled p st) = standbyChanges st"
  "timers (note_unhandled p st) = timers st"
  "awaitingIdle (note_unhandled p st) = awaitingIdle st"
  "preventUploads (note_unhandled p st) = preventUploads st"
  by (subst note_unhandled_eq, simp)+

lemma note_all_fields [simp]:
  "trace (note_all ps st) = trace st"
  "uploadQueue (note_all ps st) = uploadQueue st"
  "exitCode (note_all ps st) = exitCode st"
  "standbyChanges (note_all ps st) = standbyChanges st"
  "timers (note_all ps st) = timers st"
  "awaitingIdle (note_all ps st) = awaitingIdle st"
  "preventUploads (note_all ps st) = preventUploads st"
  by (subst note_all_eq, simp)+

lemma note_unhandled_frame [simp]:
  "pipeline_frame st (note_unhandled p st') = pipeline_frame st st'"
  "keeps st (note_unhandled p st') = keeps st st'"
  by (subst note_unhandled_eq,
      simp add: pipeline_frame_def keeps_def timer_inv_def unsupported_only_def qb_count_def
        pause_count_def)+

lemma note_all_frame [simp]:
  "pipeline_frame st (note_all ps st') = pipeline_frame st st'"
  "keeps st (note_all ps st') = keeps st st'"
  by (subst note_all_eq,
      simp add: pipeline_frame_def keeps_def timer_inv_def unsupported_only_def qb_count_def
        pause_count_def)+

lemma note_unhandled_keeps [simp]:
  "timer_inv (note_unhandled p st) = timer_inv st"
  "unsupported_only (note_unhandled p st) = unsupported_only st"
  "qb_count (note_unhandled p st) = qb_count st"
  "pause_count (note_unhandled p st) = pause_count st"
  by (subst note_unhandled_eq,
      simp add: timer_inv_def unsupported_only_def qb_count_def pause_count_def)+

lemma emit_keeps [simp]:
  "timer_inv (emit e st) = timer_inv st"
  "unsupported_only (emit e st) = unsupported_only st"
  "qb_count (emit e st) = (if e = CallQueueBuild then Suc (qb_count st) else qb_count st)"
  "pause_count (emit e st) = (if e = QueuePause then Suc (pause_count st) else pause_count st)"
  by (simp_all add: emit_def timer_inv_def unsupported_only_def qb_count_def pause_count_def)

lemma queue_update_keeps [simp]:
  "keeps st (st'\<lparr>uploadQueue := q\<rparr>) = keeps st st'"
  "timer_inv (st\<lparr>uploadQueue := q\<rparr>) = timer_inv st"
  "unsupported_only (st\<lparr>uploadQueue := q\<rparr>) = unsupported_only st"
  "qb_count (st\<lparr>uploadQueue := q\<rparr>) = qb_count st"
  "pause_count (st\<lparr>uploadQueue := q\<rparr>) = pause_count st"
  by (simp_all add: keeps_def timer_inv_def unsupported_only_def qb_count_def pause_count_def)

subsection \<open>Arming the timer, sending a change\<close>

lemma debounceQueueBuild_eq:
  "debounceQueueBuild st =
     st\<lparr>trace := trace st @ [SpinniesUpdate ''devModeStatus'' ''dirty''],
        timers := filter (\<lambda>t. Some (fst t) \<noteq> debouncedBuild st) (timers st)
                  @ [(nextTimerId st, now st + BUILD_DEBOUNCE_TIME)],
        nextTimerId := Suc (nextTimerId st),
        debouncedBuild := Some (nextTimerId st)\<rparr>"
  by (cases "debouncedBuild st") (simp_all add: debounceQueueBuild_def rt_defs)

lemma debounceQueueBuild_timers:
  assumes "timer_inv st"
  shows "timers (debounceQueueBuild st) = [(nextTimerId st, now st + BUILD_DEBOUNCE_TIME)]"
    and "debouncedBuild (debounceQueueBuild st) = Some (nextTimerId st)"
    and "timer_inv (debounceQueueBuild st)"
proof -
  have "filter (\<lambda>t. Some (fst t) \<noteq> debouncedBuild st) (timers st) = []"
    using assms by (auto simp: timer_inv_def list_all_iff filter_empty_conv)
  then show "timers (debounceQueueBuild st) = [(nextTimerId st, now st + BUILD_DEBOUNCE_TIME)]"
    and "debouncedBuild (debounceQueueBuild st) = Some (nextTimerId st)"
    and "timer_inv (debounceQueueBuild st)"
    by (simp_all add: debounceQueueBuild_eq timer_inv_def)
qed

lemma debounceQueueBuild_frame [simp]:
  "pipeline_frame st (debounceQueueBuild st)"
  "uploadQueue (debounceQueueBuild st) = uploadQueue st"
  by (simp_all add: debounceQueueBuild_eq pipeline_frame_def)

lemma debounceQueueBuild_keeps [simp]: "keeps st (debounceQueueBuild st)"
  using debounceQueueBuild_timers(3) [of st]
  by (simp add: keeps_def) (simp add: debounceQueueBuild_eq unsupported_only_def qb_count_def
      pause_count_def)

lemma sendChanges_snd:
  "snd (sendChanges env ci st) = st\<lparr>trace := trace (snd (sendChanges env ci st))\<rparr>"
  by (cases "event ci") (simp_all add: sendChanges_def rt_defs Let_def split: call.splits)

lemma sendChanges_trace:
  "submissions (trace (snd (sendChanges env ci st))) = submissions (trace st)"
  "file_calls (trace (snd (sendChanges env ci st))) = file_calls (trace st) @ [call_of ci]"
  "count_list (trace (snd (sendChanges env ci st))) CallQueueBuild
     = count_list (trace st) CallQueueBuild"
  "count_list (trace (snd (sendChanges env ci st))) QueuePause
     = count_list (trace st) QueuePause"
  by (cases "event ci"; simp add: sendChanges_def rt_defs call_of_def Let_def
      split: call.splits)+

lemma sendChanges_frame [simp]:
  "pipeline_frame st (snd (sendChanges env ci st))"
  "uploadQueue (snd (sendChanges env ci st)) = uploadQueue st"
  by (subst sendChanges_snd, simp add: pipeline_frame_def)+

lemma sendChanges_keeps [simp]: "keeps st (snd (sendChanges env ci st))"
proof -
  have "timer_inv (snd (sendChanges env ci st)) = timer_inv st"
    "unsupported_only (snd (sendChanges env ci st)) = unsupported_only st"
    by (subst sendChanges_snd, simp add: timer_inv_def unsupported_only_def)+
  then show ?thesis
    by (simp add: keeps_def qb_count_def pause_count_def sendChanges_trace)
qed

subsection \<open>The upload queue\<close>

lemma run_task_frame [simp]:
  "pipeline_frame st (snd (run_task env t st))"
  "uploadQueue (snd (run_task env t st)) = uploadQueue st"
  "keeps st (snd (run_task env t st))"
proof -
  have a: "pipeline_frame st (snd (sendChanges env ci (debounceQueueBuild st)))" for ci
    using pipeline_frame_trans [OF debounceQueueBuild_frame(1) sendChanges_frame(1)] .
  have b: "keeps st (snd (sendChanges env ci (debounceQueueBuild st)))" for ci
    using keeps_trans [OF debounceQueueBuild_keeps sendChanges_keeps] .
  show "pipeline_frame st (snd (run_task env t st))"
    by (cases t) (simp_all add: split_beta Let_def a)
  show "uploadQueue (snd (run_task env t st)) = uploadQueue st"
    by (cases t) (simp_all add: split_beta Let_def)
  show "keeps st (snd (run_task env t st))"
    by (cases t) (simp_all add: split_beta Let_def b)
qed

lemma run_task_StandbyTask_fst [simp]: "fst (run_task env (StandbyTask ci) st) = Fulfilled ()"
  by (simp add: split_beta Let_def)

lemma run_task_trace:
  "submissions (trace (snd (run_task env t st))) = submissions (trace st)"
  "file_calls (trace (snd (run_task env t st)))
     = file_calls (trace st) @ [call_of (task_change t)]"
  by (cases t; simp add: split_beta Let_def sendChanges_trace debounceQueueBuild_eq)+

lemma start_task_eq:
  "fst (start_task env t st) = fst (run_task env t st)"
  "snd (start_task env t st)
     = (snd (run_task env t st))
         \<lparr>uploadQueue := (uploadQueue st)
            \<lparr>inflight := inflight (uploadQueue st)
               @ (if settles_at_once env t st then [] else [fst (run_task env t st)])\<rparr>\<rparr>"
proof -
  have "s\<lparr>uploadQueue := uploadQueue s\<lparr>inflight := inflight (uploadQueue s)\<rparr>\<rparr> = s" for s :: lstate
    by simp
  then show "fst (start_task env t st) = fst (run_task env t st)"
    and "snd (start_task env t st)
     = (snd (run_task env t st))
         \<lparr>uploadQueue := (uploadQueue st)
            \<lparr>inflight := inflight (uploadQueue st)
               @ (if settles_at_once env t st then [] else [fst (run_task env t st)])\<rparr>\<rparr>"
    using run_task_frame(2) [of env t st]
    by (simp_all add: start_task_def split_beta)
qed

lemma start_task_frame [simp]:
  "pipeline_frame st (snd (start_task env t st))"
  "keeps st (snd (start_task env t st))"
  "waiting (uploadQueue (snd (start_task env t st))) = waiting (uploadQueue st)"
  using run_task_frame(1) [of st env t, unfolded pipeline_frame_def]
  by (simp_all add: start_task_eq pipeline_frame_def)

lemma start_task_trace:
  "submissions (trace (snd (start_task env t st))) = submissions (trace st)"
  "file_calls (trace (snd (start_task env t st)))
     = file_calls (trace st) @ [call_of (task_change t)]"
  by (simp_all add: start_task_eq run_task_trace)

lemma try_start_keeps:
  "pipeline_frame st (snd (snd (try_start env ts st)))
   \<and> keeps st (snd (snd (try_start env ts st)))
   \<and> waiting (uploadQueue (snd (snd (try_start env ts st)))) = waiting (uploadQueue st)
   \<and> submissions (trace (snd (snd (try_start env ts st)))) = submissions (trace st)"
proof (induction ts arbitrary: st)
  case Nil
  show ?case by simp
next
  case (Cons t ts)
  let ?s = "snd (start_task env t st)"
  have a: "pipeline_frame st ?s" "keeps st ?s"
    "waiting (uploadQueue ?s) = waiting (uploadQueue st)"
    "submissions (trace ?s) = submissions (trace st)"
    by (simp_all add: start_task_trace)
  show ?case
    using Cons.IH [of ?s] a pipeline_frame_trans [of st ?s] keeps_trans [of st ?s]
    by (auto simp: split_beta)
qed

lemma process_queue_keeps:
  "pipeline_frame st (snd (snd (process_queue env ts st)))
   \<and> keeps st (snd (snd (process_queue env ts st)))
   \<and> waiting (uploadQueue (snd (snd (process_queue env ts st)))) = waiting (uploadQueue st)
   \<and> submissions (trace (snd (snd (process_queue env ts st)))) = submissions (trace st)"
proof (induction ts arbitrary: st)
  case Nil
  show ?case by simp
next
  case (Cons t ts)
  let ?s = "snd (start_task env t st)"
  have a: "pipeline_frame st ?s" "keeps st ?s"
    "waiting (uploadQueue ?s) = waiting (uploadQueue st)"
    "submissions (trace ?s) = submissions (trace st)"
    by (simp_all add: start_task_trace)
  show ?case
    using Cons.IH [of ?s] a pipeline_frame_trans [of st ?s] keeps_trans [of st ?s]
    by (auto simp: split_beta)
qed

lemma try_start_blocked:
  "\<not> can_start (uploadQueue st) \<Longrightarrow> try_start env ts st = ([], ts, st)"
  "\<not> can_start (uploadQueue st) \<Longrightarrow> process_queue env ts st = ([], ts, st)"
  by (cases ts; simp)+

lemma try_start_one:
  "can_start (uploadQueue st) \<Longrightarrow>
   try_start env [t] st = ([fst (run_task env t st)], [], snd (start_task env t st))"
  by (simp add: split_beta start_task_eq(1))

lemma with_waiting_frame [simp]:
  "pipeline_frame st (st'\<lparr>uploadQueue := (uploadQueue st')\<lparr>waiting := ws\<rparr>\<rparr>)
     = pipeline_frame st st'"
  by (simp add: pipeline_frame_def)

lemma queue_add_keeps:
  "pipeline_frame st (snd (queue_add env t st))"
  "keeps st (snd (queue_add env t st))"
  "submissions (trace (snd (queue_add env t st))) = submissions (trace st) @ [t]"
proof -
  let ?e = "emit (QueueAdd t) st"
  let ?r = "try_start env (waiting (uploadQueue ?e) @ [t]) ?e"
  have e: "pipeline_frame st ?e" "keeps st ?e" "submissions (trace ?e) = submissions (trace st) @ [t]"
    by (simp_all add: keeps_emit) (simp_all add: emit_def pipeline_frame_def)
  have r: "pipeline_frame ?e (snd (snd ?r))" "keeps ?e (snd (snd ?r))"
    "submissions (trace (snd (snd ?r))) = submissions (trace ?e)"
    using try_start_keeps [of ?e env "waiting (uploadQueue ?e) @ [t]"] by simp_all
  have f: "pipeline_frame st (snd (snd ?r))" "keeps st (snd (snd ?r))"
    using pipeline_frame_trans [OF e(1) r(1)] keeps_trans [OF e(2) r(2)] by simp_all
  show "pipeline_frame st (snd (queue_add env t st))"
    using f(1) by (simp add: queue_add_def Let_def split_beta split: list.splits)
  show "keeps st (snd (queue_add env t st))"
    using f(2) by (simp add: queue_add_def Let_def split_beta split: list.splits)
  show "submissions (trace (snd (queue_add env t st))) = submissions (trace st) @ [t]"
    using r(3) e(3) by (simp add: queue_add_def Let_def split_beta split: list.splits)
qed

text \<open>A queue that can start a task and holds no waiting task starts the added task.\<close>

lemma queue_add_free:
  assumes "can_start (uploadQueue st)" and "waiting (uploadQueue st) = []"
  shows "queue_add env t st
           = (fst (run_task env t (emit (QueueAdd t) st)),
              snd (start_task env t (emit (QueueAdd t) st)))"
    and "file_calls (trace (snd (queue_add env t st)))
           = file_calls (trace st) @ [call_of (task_change t)]"
    and "waiting (uploadQueue (snd (queue_add env t st))) = []"
proof -
  let ?e = "emit (QueueAdd t) st"
  have c: "can_start (uploadQueue ?e)" "waiting (uploadQueue ?e) = []"
    using assms by (simp_all add: emit_def)
  have w: "s\<lparr>uploadQueue := (uploadQueue s)\<lparr>waiting := []\<rparr>\<rparr> = s"
    if "waiting (uploadQueue s) = []" for s :: lstate
    using that by (cases s, cases "uploadQueue s") simp
  have k: "waiting (uploadQueue (snd (start_task env t ?e))) = []"
    using c(2) start_task_frame(3) [of env t ?e] by simp
  show q: "queue_add env t st = (fst (run_task env t ?e), snd (start_task env t ?e))"
    using try_start_one [OF c(1), of env t] c(2) w [OF k]
    by (simp add: queue_add_def Let_def note_all_def)
  show "file_calls (trace (snd (queue_add env t st)))
           = file_calls (trace st) @ [call_of (task_change t)]"
    by (simp add: q start_task_trace) (simp add: emit_def)
  show "waiting (uploadQueue (snd (queue_add env t st))) = []"
    by (simp add: q c(2))
qed

lemma queue_add_free_standby:
  assumes "can_start (uploadQueue st)" and "waiting (uploadQueue st) = []"
  shows "fst (queue_add env (StandbyTask ci) st) = Fulfilled ()"
    and "uploadQueue (snd (queue_add env (StandbyTask ci) st)) = uploadQueue st"
proof -
  have e: "uploadQueue (emit (QueueAdd (StandbyTask ci)) st) = uploadQueue st"
    by (simp add: emit_def)
  show "fst (queue_add env (StandbyTask ci) st) = Fulfilled ()"
    by (simp add: queue_add_free(1) [OF assms] split_beta Let_def)
  show "uploadQueue (snd (queue_add env (StandbyTask ci) st)) = uploadQueue st"
    by (simp add: queue_add_free(1) [OF assms] start_task_eq(2) e del: run_task.simps)
qed

text \<open>A queue that cannot start a task keeps the added task waiting.\<close>

lemma queue_add_blocked:
  assumes "\<not> can_start (uploadQueue st)"
  shows "queue_add env t st
           = (Pending,
              (emit (QueueAdd t) st)
                \<lparr>uploadQueue := (uploadQueue st)\<lparr>waiting := waiting (uploadQueue st) @ [t]\<rparr>\<rparr>)"
proof -
  have "\<not> can_start (uploadQueue (emit (QueueAdd t) st))"
    using assms by (simp add: emit_def)
  then show ?thesis
    by (simp add: queue_add_def Let_def try_start_blocked note_all_def) (simp add: emit_def)
qed

lemma queue_addAll_keeps:
  "pipeline_frame st (snd (queue_addAll env ts st))
   \<and> keeps st (snd (queue_addAll env ts st))
   \<and> submissions (trace (snd (queue_addAll env ts st))) = submissions (trace st) @ ts"
proof (induction ts arbitrary: st)
  case Nil
  show ?case by simp
next
  case (Cons t ts)
  let ?s = "snd (queue_add env t st)"
  show ?case
    using Cons.IH [of ?s] queue_add_keeps [where st = st and env = env and t = t]
      pipeline_frame_trans [of st ?s] keeps_trans [of st ?s]
    by (auto simp: split_beta)
qed

lemma queue_addAll_free:
  assumes "can_start (uploadQueue st)" and "waiting (uploadQueue st) = []"
  shows "set (fst (queue_addAll env (map StandbyTask cs) st)) \<subseteq> {Fulfilled ()}
       \<and> file_calls (trace (snd (queue_addAll env (map StandbyTask cs) st)))
           = file_calls (trace st) @ map call_of cs
       \<and> uploadQueue (snd (queue_addAll env (map StandbyTask cs) st)) = uploadQueue st"
  using assms
proof (induction cs arbitrary: st)
  case Nil
  show ?case by simp
next
  case (Cons c cs)
  let ?s = "snd (queue_add env (StandbyTask c) st)"
  have q: "uploadQueue ?s = uploadQueue st" "fst (queue_add env (StandbyTask c) st) = Fulfilled ()"
    "file_calls (trace ?s) = file_calls (trace st) @ [call_of c]"
    using queue_add_free_standby [OF Cons.prems, of env c]
      queue_add_free(2) [OF Cons.prems, of env "StandbyTask c"]
    by simp_all
  have "can_start (uploadQueue ?s)" "waiting (uploadQueue ?s) = []"
    using Cons.prems by (simp_all add: q(1))
  from Cons.IH [OF this] show ?case
    by (simp add: split_beta q)
qed

lemma promise_all_fulfilled: "set ps \<subseteq> {Fulfilled ()} \<Longrightarrow> promise_all ps = Fulfilled ()"
proof -
  assume a: "set ps \<subseteq> {Fulfilled ()}"
  then have "find is_rejected ps = None"
    by (auto simp: find_None_iff)
  moreover have "Pending \<notin> set ps"
    using a by auto
  ultimately show ?thesis
    by (simp add: promise_all_def)
qed

lemma queue_next_keeps:
  "pipeline_frame st (queue_next env st)"
  "keeps st (queue_next env st)"
  "submissions (trace (queue_next env st)) = submissions (trace st)"
  using try_start_keeps [of st env "waiting (uploadQueue st)"]
  by (simp_all add: queue_next_def split_beta)

lemma queue_start_keeps:
  "keeps st (queue_start env st)"
  "isPaused (uploadQueue (queue_start env st)) = False"
  "standbyChanges (queue_start env st) = standbyChanges st"
  "preventUploads (queue_start env st) = preventUploads st"
  "exitCode (queue_start env st) = exitCode st"
  "awaitingIdle (queue_start env st) = awaitingIdle st"
proof -
  let ?s = "emit QueueStart st"
  let ?e = "?s\<lparr>uploadQueue := (uploadQueue ?s)\<lparr>isPaused := False\<rparr>\<rparr>"
  let ?p = "process_queue env (waiting (uploadQueue ?e)) ?e"
  let ?r = "snd (snd ?p)"
  have s: "keeps st ?s"
    by (simp add: keeps_emit)
  have e: "keeps st ?e"
    using s by simp
  have r: "pipeline_frame ?e ?r" "keeps ?e ?r"
    using process_queue_keeps [of ?e env "waiting (uploadQueue ?e)"] by simp_all
  have q: "queue_start env st
             = (if \<not> isPaused (uploadQueue st) then ?s
                else note_all (fst ?p)
                       (?r\<lparr>uploadQueue := (uploadQueue ?r)\<lparr>waiting := fst (snd ?p)\<rparr>\<rparr>))"
    by (simp add: queue_start_def Let_def split_beta) (simp add: emit_def)
  show "keeps st (queue_start env st)"
    using keeps_trans [OF e r(2)] s by (simp add: q)
  show "isPaused (uploadQueue (queue_start env st)) = False"
    "standbyChanges (queue_start env st) = standbyChanges st"
    "preventUploads (queue_start env st) = preventUploads st"
    "exitCode (queue_start env st) = exitCode st"
    "awaitingIdle (queue_start env st) = awaitingIdle st"
    using r(1) by (simp_all add: q pipeline_frame_def) (simp_all add: emit_def)
qed

subsection \<open>Flushing the standby buffer\<close>

lemma flushStandbyChanges_frame:
  "isPaused (uploadQueue (snd (flushStandbyChanges env st))) = isPaused (uploadQueue st)"
  "preventUploads (snd (flushStandbyChanges env st)) = preventUploads st"
  "exitCode (snd (flushStandbyChanges env st)) = exitCode st"
  "awaitingIdle (snd (flushStandbyChanges env st)) = awaitingIdle st"
  using queue_addAll_keeps [of st env "map (\<lambda>c. StandbyTask (change c)) (standbyChanges st)"]
  by (simp_all add: flushStandbyChanges_def split_beta pipeline_frame_def split: promise.splits)

lemma flushStandbyChanges_submissions:
  "submissions (trace (snd (flushStandbyChanges env st)))
     = submissions (trace st) @ map (\<lambda>c. StandbyTask (change c)) (standbyChanges st)"
  using queue_addAll_keeps [of st env "map (\<lambda>c. StandbyTask (change c)) (standbyChanges st)"]
  by (simp add: flushStandbyChanges_def split_beta split: promise.splits)

lemma flushStandbyChanges_free:
  assumes "can_start (uploadQueue st)" and "waiting (uploadQueue st) = []"
  shows "fst (flushStandbyChanges env st) = Fulfilled ()"
    and "standbyChanges (snd (flushStandbyChanges env st)) = []"
    and "file_calls (trace (snd (flushStandbyChanges env st)))
           = file_calls (trace st) @ map (\<lambda>c. call_of (change c)) (standbyChanges st)"
    and "uploadQueue (snd (flushStandbyChanges env st)) = uploadQueue st"
proof -
  let ?r = "queue_addAll env (map StandbyTask (map change (standbyChanges st))) st"
  have "promise_all (fst ?r) = Fulfilled ()"
    and "file_calls (trace (snd ?r))
           = file_calls (trace st) @ map call_of (map change (standbyChanges st))"
    and "uploadQueue (snd ?r) = uploadQueue st"
    using queue_addAll_free [OF assms, of env "map change (standbyChanges st)"]
    by (simp_all add: promise_all_fulfilled)
  then show "fst (flushStandbyChanges env st) = Fulfilled ()"
    and "standbyChanges (snd (flushStandbyChanges env st)) = []"
    and "file_calls (trace (snd (flushStandbyChanges env st)))
           = file_calls (trace st) @ map (\<lambda>c. call_of (change c)) (standbyChanges st)"
    and "uploadQueue (snd (flushStandbyChanges env st)) = uploadQueue st"
    by (simp_all add: flushStandbyChanges_def split_beta comp_def)
qed

lemma flushStandbyChanges_keeps: "keeps st (snd (flushStandbyChanges env st))"
proof -
  let ?r = "snd (queue_addAll env (map (\<lambda>c. StandbyTask (change c)) (standbyChanges st)) st)"
  have k: "keeps st ?r"
    using queue_addAll_keeps [of st env] by simp
  have "keeps st (?r\<lparr>standbyChanges := []\<rparr>)"
    using k by (simp add: keeps_def timer_inv_def unsupported_only_def qb_count_def
        pause_count_def)
  then show ?thesis
    using k by (simp add: flushStandbyChanges_def split_beta split: promise.splits)
qed

subsection \<open>Stopping, provisioning, starting the queue\<close>

lemma keepsD:
  assumes "keeps st st'"
  shows "timer_inv st \<Longrightarrow> timer_inv st'"
    and "unsupported_only st \<Longrightarrow> unsupported_only st'"
    and "qb_count st' = qb_count st"
    and "pause_count st' = pause_count st"
  using assms by (simp_all add: keeps_def)

lemma stop_snd:
  "snd (stop env st) = st\<lparr>trace := trace (snd (stop env st)), watching := False,
                            exitCode := exitCode (snd (stop env st))\<rparr>"
  by (simp add: stop_def Let_def rt_defs split: option.splits sum.splits)

lemma createNewStagingBuild_snd:
  "snd (createNewStagingBuild env st)
     = st\<lparr>trace := trace (snd (createNewStagingBuild env st)),
          currentStagedBuildId := currentStagedBuildId (snd (createNewStagingBuild env st)),
          exitCode := exitCode (snd (createNewStagingBuild env st))\<rparr>"
  by (simp add: createNewStagingBuild_def Let_def rt_defs split: option.splits sum.splits)

lemma pauseUploadQueue_snd:
  "snd (pauseUploadQueue st)
     = st\<lparr>trace := trace st @ [SpinniesRemoveAll,
                                 SpinniesAdd ''uploading'' ''upload.uploadingChanges'',
                                 QueuePause],
          uploadQueue := (uploadQueue st)\<lparr>isPaused := True\<rparr>\<rparr>"
  "fst (pauseUploadQueue st) = queue_idle (uploadQueue st)"
  by (simp_all add: pauseUploadQueue_def Let_def rt_defs queue_idle_def)

lemma stop_fields [simp]:
  "preventUploads (snd (stop env st)) = preventUploads st"
  "timers (snd (stop env st)) = timers st"
  "uploadQueue (snd (stop env st)) = uploadQueue st"
  "awaitingIdle (snd (stop env st)) = awaitingIdle st"
  "standbyChanges (snd (stop env st)) = standbyChanges st"
  by (subst stop_snd, simp)+

lemma createNewStagingBuild_fields [simp]:
  "preventUploads (snd (createNewStagingBuild env st)) = preventUploads st"
  "standbyChanges (snd (createNewStagingBuild env st)) = standbyChanges st"
  "uploadQueue (snd (createNewStagingBuild env st)) = uploadQueue st"
  "awaitingIdle (snd (createNewStagingBuild env st)) = awaitingIdle st"
  by (subst createNewStagingBuild_snd, simp)+

lemma stop_keeps: "keeps st (snd (stop env st))"
proof -
  have "timer_inv (snd (stop env st)) = timer_inv st"
    "unsupported_only (snd (stop env st)) = unsupported_only st"
    by (subst stop_snd, simp add: timer_inv_def unsupported_only_def)+
  moreover have "qb_count (snd (stop env st)) = qb_count st"
    "pause_count (snd (stop env st)) = pause_count st"
    by (simp_all add: qb_count_def pause_count_def stop_def Let_def rt_defs
        split: option.splits sum.splits)
  ultimately show ?thesis
    by (simp add: keeps_def)
qed

lemma createNewStagingBuild_keeps: "keeps st (snd (createNewStagingBuild env st))"
proof -
  have "timer_inv (snd (createNewStagingBuild env st)) = timer_inv st"
    "unsupported_only (snd (createNewStagingBuild env st)) = unsupported_only st"
    by (subst createNewStagingBuild_snd, simp add: timer_inv_def unsupported_only_def)+
  moreover have "qb_count (snd (createNewStagingBuild env st)) = qb_count st"
    "pause_count (snd (createNewStagingBuild env st)) = pause_count st"
    by (simp_all add: qb_count_def pause_count_def createNewStagingBuild_def Let_def rt_defs
        split: option.splits sum.splits)
  ultimately show ?thesis
    by (simp add: keeps_def)
qed

lemma stop_exits:
  assumes "truthy (currentStagedBuildId st) \<longrightarrow>
             await (cancelStagedBuild env
               (trace st @ [SpinniesRemoveAll, SpinniesAdd ''cleanupMessage'' ''exitingStart'',
                            WatcherClose])) \<noteq> None"
  shows "exitCode (snd (stop env st)) \<noteq> None"
    and "count_list (trace (snd (stop env st))) CallCancelStagedBuild
           = count_list (trace st) CallCancelStagedBuild
             + (if truthy (currentStagedBuildId st) then 1 else 0)"
    and "length (filter is_exit (trace (snd (stop env st))))
           = Suc (length (filter is_exit (trace st)))"
  using assms
  by (auto simp: stop_def Let_def rt_defs split: option.splits sum.splits)

lemma stop_quiet: "quiet (trace st) \<Longrightarrow> quiet (trace (snd (stop env st)))"
  by (simp add: stop_def Let_def rt_defs quiet_def split: option.splits sum.splits)

lemma startUploadQueue_eq:
  "startUploadQueue env st
     = (queue_start env st)
         \<lparr>trace := trace (queue_start env st)
            @ [SpinniesRemoveAll, SpinniesAdd ''devModeRunning'' ''running'']
            @ (if preventUploads st
               then [SpinniesAdd ''preventUploadsBanner'' ''preventUploadsBanner''] else [])
            @ [SpinniesAdd ''devModeStatus'' ''status.clean'',
               SpinniesAdd ''quitMessage'' ''quitHelper'',
               SpinniesAdd ''lineSeparator'' (replicate 50 (CHR ''-''))]\<rparr>"
  by (simp add: startUploadQueue_def Let_def emit_def queue_start_keeps)

lemma startUploadQueue_keeps:
  "keeps st (startUploadQueue env st)"
  "isPaused (uploadQueue (startUploadQueue env st)) = False"
  "standbyChanges (startUploadQueue env st) = standbyChanges st"
  "preventUploads (startUploadQueue env st) = preventUploads st"
  "exitCode (startUploadQueue env st) = exitCode st"
  "awaitingIdle (startUploadQueue env st) = awaitingIdle st"
proof -
  have "keeps (queue_start env st) (startUploadQueue env st)"
    by (simp add: startUploadQueue_eq keeps_def timer_inv_def unsupported_only_def
        qb_count_def pause_count_def)
  then show "keeps st (startUploadQueue env st)"
    using keeps_trans [OF queue_start_keeps(1)] by blast
  show "isPaused (uploadQueue (startUploadQueue env st)) = False"
    "standbyChanges (startUploadQueue env st) = standbyChanges st"
    "preventUploads (startUploadQueue env st) = preventUploads st"
    "exitCode (startUploadQueue env st) = exitCode st"
    "awaitingIdle (startUploadQueue env st) = awaitingIdle st"
    by (simp_all add: startUploadQueue_eq queue_start_keeps)
qed

lemmas method_keeps =
  stop_keeps createNewStagingBuild_keeps startUploadQueue_keeps(1) flushStandbyChanges_keeps
  queue_add_keeps(2) queue_next_keeps(2) debounceQueueBuild_keeps

lemmas method_timer_inv = method_keeps [THEN keepsD(1)]

lemmas method_unsupported = method_keeps [THEN keepsD(2)]

lemmas method_qb_count = method_keeps [THEN keepsD(3)]

lemmas method_pause_count = method_keeps [THEN keepsD(4)]

subsection \<open>The timer callback\<close>

lemma afterPause_keeps:
  "timer_inv st \<Longrightarrow> timer_inv (snd (afterPause env st))"
  "unsupported_only st \<Longrightarrow> unsupported_only (snd (afterPause env st))"
  "qb_count (snd (afterPause env st)) = Suc (qb_count st)"
  "pause_count (snd (afterPause env st)) = pause_count st"
  by (simp_all add: afterPause_def split_beta Let_def updateDevModeStatus_def
      method_timer_inv method_unsupported method_qb_count method_pause_count
      split: option.splits sum.splits promise.splits)

lemma debouncedBuildCallback_keeps:
  "timer_inv st \<Longrightarrow> timer_inv (snd (debouncedBuildCallback env st))"
  "unsupported_only st \<Longrightarrow> unsupported_only (snd (debouncedBuildCallback env st))"
  "pause_count (snd (debouncedBuildCallback env st)) = Suc (pause_count st)"
  "qb_count (snd (debouncedBuildCallback env st))
     = (if queue_idle (uploadQueue st) then Suc (qb_count st) else qb_count st)"
  "\<not> queue_idle (uploadQueue st) \<Longrightarrow>
   awaitingIdle (snd (debouncedBuildCallback env st)) = Suc (awaitingIdle st)"
proof -
  let ?p = "snd (pauseUploadQueue st)"
  have p: "timer_inv ?p = timer_inv st" "unsupported_only ?p = unsupported_only st"
    "pause_count ?p = Suc (pause_count st)" "qb_count ?p = qb_count st"
    "awaitingIdle ?p = awaitingIdle st"
    by (simp_all add: pauseUploadQueue_snd timer_inv_def unsupported_only_def pause_count_def
        qb_count_def)
  have u: "timer_inv (s\<lparr>awaitingIdle := n\<rparr>) = timer_inv s"
    "unsupported_only (s\<lparr>awaitingIdle := n\<rparr>) = unsupported_only s"
    "pause_count (s\<lparr>awaitingIdle := n\<rparr>) = pause_count s"
    "qb_count (s\<lparr>awaitingIdle := n\<rparr>) = qb_count s" for s n
    by (simp_all add: timer_inv_def unsupported_only_def pause_count_def qb_count_def)
  have d: "debouncedBuildCallback env st
             = (if queue_idle (uploadQueue st) then afterPause env ?p
                else (Pending, ?p\<lparr>awaitingIdle := Suc (awaitingIdle ?p)\<rparr>))"
    by (simp add: debouncedBuildCallback_def split_beta pauseUploadQueue_snd(2)
        split: bool.splits)
  show "timer_inv st \<Longrightarrow> timer_inv (snd (debouncedBuildCallback env st))"
    by (simp add: d afterPause_keeps p u)
  show "unsupported_only st \<Longrightarrow> unsupported_only (snd (debouncedBuildCallback env st))"
    by (simp add: d afterPause_keeps p u)
  show "pause_count (snd (debouncedBuildCallback env st)) = Suc (pause_count st)"
    by (simp add: d afterPause_keeps p u)
  show "qb_count (snd (debouncedBuildCallback env st))
     = (if queue_idle (uploadQueue st) then Suc (qb_count st) else qb_count st)"
    by (simp add: d afterPause_keeps p u)
  show "\<not> queue_idle (uploadQueue st) \<Longrightarrow>
   awaitingIdle (snd (debouncedBuildCallback env st)) = Suc (awaitingIdle st)"
    by (simp add: d p)
qed

subsection \<open>Watch events\<close>

lemma addChangeToStandbyQueue_keeps:
  "\<not> supported c \<Longrightarrow> keeps st (addChangeToStandbyQueue env c st)"
  by (simp add: addChangeToStandbyQueue_def emit_def keeps_def timer_inv_def
      unsupported_only_def qb_count_def pause_count_def)

lemma handleWatchEvent_keeps: "keeps st (snd (handleWatchEvent env fp ev st))"
proof -
  let ?f = "snd (flushStandbyChanges env st)"
  let ?ci = "ci_of env st fp ev"
  have f: "keeps st ?f"
    by (rule flushStandbyChanges_keeps)
  have d: "keeps st (debounceQueueBuild ?f)"
    using keeps_trans [OF f debounceQueueBuild_keeps] .
  have q: "keeps st (snd (queue_add env (WatchTask ?ci) ?f))"
    "keeps st (snd (queue_add env (WatchTask ?ci) (debounceQueueBuild ?f)))"
    using keeps_trans [OF f queue_add_keeps(2)] keeps_trans [OF d queue_add_keeps(2)]
    by blast+
  have e: "keeps st (emit (SpinniesAdd a b) (emit (SpinniesUpdate c x) st))" for a b c x
    using keeps_trans [OF keeps_emit keeps_emit, of "SpinniesUpdate c x" "SpinniesAdd a b" st]
    by simp
  show ?thesis
    using f q e
    by (simp add: handleWatchEvent_def notifyServers_def Let_def split_beta ci_of_def
        updateDevModeStatus_def addChangeToStandbyQueue_keeps split: promise.splits)
qed

text \<open>The queue runs, nothing waits and a slot is free: everything is started at once.\<close>

lemma handleWatchEvent_free:
  assumes "\<not> preventUploads st" and "can_start (uploadQueue st)"
    and "waiting (uploadQueue st) = []"
  shows "standbyChanges (snd (handleWatchEvent env fp ev st)) = []"
    and "submissions (trace (snd (handleWatchEvent env fp ev st)))
           = submissions (trace st) @ map (\<lambda>c. StandbyTask (change c)) (standbyChanges st)
             @ [WatchTask (ci_of env st fp ev)]"
    and "file_calls (trace (snd (handleWatchEvent env fp ev st)))
           = file_calls (trace st) @ map (\<lambda>c. call_of (change c)) (standbyChanges st)
             @ [call_of (ci_of env st fp ev)]"
proof -
  let ?f = "flushStandbyChanges env st"
  let ?d = "debounceQueueBuild (snd ?f)"
  let ?ci = "ci_of env st fp ev"
  note fl = flushStandbyChanges_free [OF assms(2,3), of env]
  have run: "\<not> isPaused (uploadQueue st)"
    using assms(2) by (simp add: can_start_def)
  have h: "handleWatchEvent env fp ev st = queue_add env (WatchTask ?ci) ?d"
    using assms(1) run fl(1,4)
    by (cases ?f) (simp add: handleWatchEvent_def notifyServers_def ci_of_def Let_def)
  have cd: "can_start (uploadQueue ?d)" "waiting (uploadQueue ?d) = []"
    using assms(2,3) by (simp_all add: fl(4))
  have sd: "standbyChanges ?d = []"
    using fl(2) by (simp add: debounceQueueBuild_eq)
  show "standbyChanges (snd (handleWatchEvent env fp ev st)) = []"
    using queue_add_keeps(1) [of ?d env "WatchTask ?ci"] sd
    by (simp add: h pipeline_frame_def)
  show "submissions (trace (snd (handleWatchEvent env fp ev st)))
           = submissions (trace st) @ map (\<lambda>c. StandbyTask (change c)) (standbyChanges st)
             @ [WatchTask ?ci]"
    by (simp add: h queue_add_keeps(3) debounceQueueBuild_eq flushStandbyChanges_submissions)
  show "file_calls (trace (snd (handleWatchEvent env fp ev st)))
           = file_calls (trace st) @ map (\<lambda>c. call_of (change c)) (standbyChanges st)
             @ [call_of ?ci]"
  proof -
    have "file_calls (trace ?d) = file_calls (trace (snd ?f))"
      by (simp add: debounceQueueBuild_eq)
    then show ?thesis
      using fl(3) by (simp add: h queue_add_free(2) [OF cd])
  qed
qed

text \<open>The queue runs and the buffer is empty: the event is handed to the queue.\<close>

lemma handleWatchEvent_empty_buffer:
  assumes "\<not> preventUploads st" and "\<not> isPaused (uploadQueue st)"
    and "standbyChanges st = []"
  shows "handleWatchEvent env fp ev st
           = queue_add env (WatchTask (ci_of env st fp ev)) (debounceQueueBuild st)"
    and "submissions (trace (snd (handleWatchEvent env fp ev st)))
           = submissions (trace st) @ [WatchTask (ci_of env st fp ev)]"
proof -
  show h: "handleWatchEvent env fp ev st
           = queue_add env (WatchTask (ci_of env st fp ev)) (debounceQueueBuild st)"
    using assms
    by (simp add: handleWatchEvent_def notifyServers_def ci_of_def Let_def
        flushStandbyChanges_def)
  show "submissions (trace (snd (handleWatchEvent env fp ev st)))
           = submissions (trace st) @ [WatchTask (ci_of env st fp ev)]"
    by (simp add: h queue_add_keeps(3) debounceQueueBuild_eq)
qed

lemma handleWatchEvent_prevented:
  assumes "preventUploads st"
  shows "handleWatchEvent env fp ev st
           = (Fulfilled (),
              st\<lparr>trace := trace st
                   @ [SpinniesUpdate ''devModeStatus'' ''uploadPrevented'',
                      SpinniesAdd fp (''[WARNING] Upload prevented for ''
                                        @ relative env (projectSourceDir st) fp)]\<rparr>)"
  using assms by (simp add: handleWatchEvent_def notifyServers_def Let_def rt_defs)

subsection \<open>The event loop\<close>

lemma awaitingIdle_update_keeps [simp]:
  "timer_inv (st\<lparr>awaitingIdle := n\<rparr>) = timer_inv st"
  "unsupported_only (st\<lparr>awaitingIdle := n\<rparr>) = unsupported_only st"
  "qb_count (st\<lparr>awaitingIdle := n\<rparr>) = qb_count st"
  "pause_count (st\<lparr>awaitingIdle := n\<rparr>) = pause_count st"
  by (simp_all add: timer_inv_def unsupported_only_def qb_count_def pause_count_def)

lemma now_update_keeps [simp]:
  "timer_inv (st\<lparr>now := n\<rparr>) = timer_inv st"
  "unsupported_only (st\<lparr>now := n\<rparr>) = unsupported_only st"
  "qb_count (st\<lparr>now := n\<rparr>) = qb_count st"
  "pause_count (st\<lparr>now := n\<rparr>) = pause_count st"
  by (simp_all add: timer_inv_def unsupported_only_def qb_count_def pause_count_def)

lemma resume_keeps:
  "timer_inv st \<Longrightarrow> timer_inv (resume env n st)"
  "unsupported_only st \<Longrightarrow> unsupported_only (resume env n st)"
  "pause_count (resume env n st) = pause_count st"
  by (induction n arbitrary: st) (simp_all add: split_beta afterPause_keeps)

lemma settle_keeps:
  "timer_inv st \<Longrightarrow> timer_inv (settle env i st)"
  "unsupported_only st \<Longrightarrow> unsupported_only (settle env i st)"
  "pause_count (settle env i st) = pause_count st"
  by (simp_all add: settle_def Let_def resume_keeps method_timer_inv method_unsupported
      method_pause_count)

lemma settle_idle: "inflight (uploadQueue st) = [] \<Longrightarrow> settle env i st = st"
  by (simp add: settle_def)

lemma fire_keeps:
  "timer_inv st \<Longrightarrow> timer_inv (fire env st)"
  "unsupported_only st \<Longrightarrow> unsupported_only (fire env st)"
proof -
  {
    assume a: "timer_inv st"
    have r: "timer_inv (st\<lparr>timers := remove1 t (timers st)\<rparr>)" for t
    proof -
      have "length (remove1 t (timers st)) \<le> length (timers st)"
        by (simp add: length_remove1)
      moreover have "set (remove1 t (timers st)) \<subseteq> set (timers st)"
        by (rule set_remove1_subset)
      ultimately show ?thesis
        using a by (auto simp: timer_inv_def list_all_iff)
    qed
    show "timer_inv (fire env st)"
      using a
      by (simp add: fire_def split_beta debouncedBuildCallback_keeps r split: option.splits)
  next
    assume a: "unsupported_only st"
    have "unsupported_only (st\<lparr>timers := ts\<rparr>)" for ts
      using a by (simp add: unsupported_only_def)
    then show "unsupported_only (fire env st)"
      using a
      by (simp add: fire_def split_beta debouncedBuildCallback_keeps split: option.splits)
  }
qed

lemma step_keeps:
  "timer_inv st \<Longrightarrow> timer_inv (step env st i)"
  "unsupported_only st \<Longrightarrow> unsupported_only (step env st i)"
proof -
  note h = handleWatchEvent_keeps [THEN keepsD(1)] handleWatchEvent_keeps [THEN keepsD(2)]
  show "timer_inv st \<Longrightarrow> timer_inv (step env st i)"
    by (cases i) (simp_all add: split_beta h fire_keeps method_timer_inv settle_keeps)
  show "unsupported_only st \<Longrightarrow> unsupported_only (step env st i)"
    by (cases i) (simp_all add: split_beta h fire_keeps method_unsupported settle_keeps)
qed

lemma run_keeps:
  "timer_inv st \<Longrightarrow> timer_inv (run env st is)"
  "unsupported_only st \<Longrightarrow> unsupported_only (run env st is)"
  by (induction "is" arbitrary: st) (simp_all add: run_def step_keeps)

lemma start_keeps:
  "timer_inv (snd (start env (constructor opts)))"
  "unsupported_only (snd (start env (constructor opts)))"
proof -
  let ?c = "(constructor opts)\<lparr>uploadQueue := new_PQueue 10\<rparr>"
  have a: "timer_inv ?c" "unsupported_only ?c"
    by (simp_all add: constructor_def timer_inv_def unsupported_only_def)
  have b: "timer_inv (startUploadQueue env ?c)" "unsupported_only (startUploadQueue env ?c)"
    using a by (simp_all add: method_timer_inv method_unsupported)
  have w: "timer_inv (s\<lparr>watching := x\<rparr>) = timer_inv s"
    "unsupported_only (s\<lparr>watching := x\<rparr>) = unsupported_only s" for s x
    by (simp_all add: timer_inv_def unsupported_only_def)
  show "timer_inv (snd (start env (constructor opts)))"
    using b(1)
    by (simp add: start_def startWatching_def startServers_def Let_def split_beta w
        method_timer_inv split: promise.splits)
  show "unsupported_only (snd (start env (constructor opts)))"
    using b(2)
    by (simp add: start_def startWatching_def startServers_def Let_def split_beta w
        method_unsupported split: promise.splits)
qed

subsection \<open>Prevented uploads\<close>

lemma step_prevented: "prevented st \<Longrightarrow> prevented (step env st i)"
proof (cases i)
  case (Watch fp ev)
  assume "prevented st"
  then show ?thesis
    unfolding Watch
    by (simp add: prevented_def handleWatchEvent_prevented quiet_def)
next
  case (Elapse n)
  assume "prevented st"
  then show ?thesis
    unfolding Elapse by (simp add: prevented_def fire_def)
next
  case Stop
  assume "prevented st"
  then show ?thesis
    unfolding Stop
    by (simp add: prevented_def split_beta stop_quiet)
next
  case (Settle k)
  assume "prevented st"
  then show ?thesis
    unfolding Settle by (simp add: prevented_def queue_idle_def settle_idle)
qed

lemma run_prevented: "prevented st \<Longrightarrow> prevented (run env st is)"
  by (induction "is" arbitrary: st) (simp_all add: run_def step_prevented)

lemma start_prevented:
  assumes "opt_preventUploads opts"
  shows "prevented (snd (start env (constructor opts)))"
  using assms
  by (simp add: start_def startWatching_def startServers_def startUploadQueue_def
      queue_start_def constructor_def Let_def emit_def prevented_def quiet_def
      new_PQueue_def queue_idle_def note_all_def)

subsection \<open>Re-arming\<close>

lemma armed_debounceQueueBuild:
  assumes "exitCode st = None" and "timer_inv st"
  shows "armed (debounceQueueBuild st)"
    and "qb_count (debounceQueueBuild st) = qb_count st"
    and "pause_count (debounceQueueBuild st) = pause_count st"
    and "uploadQueue (debounceQueueBuild st) = uploadQueue st"
  using debounceQueueBuild_timers [OF assms(2)] assms(1)
  by (simp_all add: armed_def)
    (simp_all add: debounceQueueBuild_eq qb_count_def pause_count_def)

lemma armed_elapse_early:
  assumes "armed st" and "d < BUILD_DEBOUNCE_TIME"
  shows "step env st (Elapse d) = st\<lparr>now := now st + d\<rparr>"
  using assms by (simp add: armed_def fire_def)

lemma armed_elapse_late:
  assumes "armed st" and "BUILD_DEBOUNCE_TIME \<le> d"
  shows "pause_count (step env st (Elapse d)) = Suc (pause_count st)"
    and "qb_count (step env st (Elapse d))
           = (if queue_idle (uploadQueue st) then Suc (qb_count st) else qb_count st)"
    and "\<not> queue_idle (uploadQueue st) \<Longrightarrow>
         awaitingIdle (step env st (Elapse d)) = Suc (awaitingIdle st)"
proof -
  let ?s = "st\<lparr>now := now st + d, timers := []\<rparr>"
  have s: "step env st (Elapse d)
             = note_unhandled (fst (debouncedBuildCallback env ?s))
                 (snd (debouncedBuildCallback env ?s))"
    using assms by (simp add: armed_def fire_def split_beta)
  have e: "pause_count ?s = pause_count st" "qb_count ?s = qb_count st"
    "uploadQueue ?s = uploadQueue st" "awaitingIdle ?s = awaitingIdle st"
    by (simp_all add: qb_count_def pause_count_def)
  show "pause_count (step env st (Elapse d)) = Suc (pause_count st)"
    by (simp only: s note_unhandled_keeps debouncedBuildCallback_keeps e)
  show "qb_count (step env st (Elapse d))
           = (if queue_idle (uploadQueue st) then Suc (qb_count st) else qb_count st)"
    by (simp only: s note_unhandled_keeps debouncedBuildCallback_keeps e)
  show "awaitingIdle (step env st (Elapse d)) = Suc (awaitingIdle st)"
    if "\<not> queue_idle (uploadQueue st)"
    using that debouncedBuildCallback_keeps(5) [of ?s env]
    unfolding s by simp
qed

lemma rearm_armed:
  assumes "armed st" and "list_all (\<lambda>d. d < BUILD_DEBOUNCE_TIME) ds"
  shows "armed (rearm env ds st) \<and> qb_count (rearm env ds st) = qb_count st
       \<and> pause_count (rearm env ds st) = pause_count st
       \<and> uploadQueue (rearm env ds st) = uploadQueue st
       \<and> awaitingIdle (rearm env ds st) = awaitingIdle st"
  using assms
proof (induction ds arbitrary: st)
  case Nil
  then show ?case by simp
next
  case (Cons d ds)
  let ?e = "st\<lparr>now := now st + d\<rparr>"
  have e: "step env st (Elapse d) = ?e"
    using Cons.prems by (intro armed_elapse_early) simp_all
  have "exitCode ?e = None" "timer_inv ?e"
    using Cons.prems(1) by (simp_all add: armed_def timer_inv_def)
  then have "armed (debounceQueueBuild ?e)" "qb_count (debounceQueueBuild ?e) = qb_count ?e"
    "pause_count (debounceQueueBuild ?e) = pause_count ?e"
    "uploadQueue (debounceQueueBuild ?e) = uploadQueue ?e"
    by (rule armed_debounceQueueBuild)+
  moreover have "awaitingIdle (debounceQueueBuild ?e) = awaitingIdle st"
    by (simp add: debounceQueueBuild_eq)
  moreover have "rearm env (d # ds) st = rearm env ds (debounceQueueBuild ?e)"
    by (simp only: rearm.simps e)
  ultimately show ?case
    using Cons.IH [of "debounceQueueBuild ?e"] Cons.prems(2) by simp
qed

subsection \<open>The concrete states\<close>

lemma st_running_eq:
  "st_running =
     \<lparr>preventUploads = False, mockServers = False, projectSourceDir = ''/proj/src'',
      uploadQueue = \<lparr>concurrency = 10, isPaused = False, waiting = [], inflight = []\<rparr>,
      standbyChanges = [], debouncedBuild = None, currentStagedBuildId = Some 1,
      watching = True, timers = [], nextTimerId = 0, now = 0, exitCode = None,
      trace = [QueueStart, SpinniesRemoveAll, SpinniesAdd ''devModeRunning'' ''running'',
               SpinniesAdd ''devModeStatus'' ''status.clean'',
               SpinniesAdd ''quitMessage'' ''quitHelper'',
               SpinniesAdd ''lineSeparator'' (replicate 50 (CHR ''-'')),
               CallProvisionBuild],
      unhandled = [], awaitingIdle = 0\<rparr>"
  by (simp add: st_running_def all_defs rt_defs env0_def opts0_def)

lemma st_prevent_eq:
  "st_prevent =
     \<lparr>preventUploads = True, mockServers = False, projectSourceDir = ''/proj/src'',
      uploadQueue = \<lparr>concurrency = 10, isPaused = False, waiting = [], inflight = []\<rparr>,
      standbyChanges = [], debouncedBuild = None, currentStagedBuildId = None,
      watching = True, timers = [], nextTimerId = 0, now = 0, exitCode = None,
      trace = [QueueStart, SpinniesRemoveAll, SpinniesAdd ''devModeRunning'' ''running'',
               SpinniesAdd ''preventUploadsBanner'' ''preventUploadsBanner'',
               SpinniesAdd ''devModeStatus'' ''status.clean'',
               SpinniesAdd ''quitMessage'' ''quitHelper'',
               SpinniesAdd ''lineSeparator'' (replicate 50 (CHR ''-''))],
      unhandled = [], awaitingIdle = 0\<rparr>"
  by (simp add: st_prevent_def all_defs rt_defs env0_def opts_prevent_def opts0_def)

lemma st_uploading_eq:
  "st_uploading =
     st_running
       \<lparr>uploadQueue := \<lparr>concurrency = 10, isPaused = False, waiting = [],
                         inflight = [Fulfilled ()]\<rparr>,
        debouncedBuild := Some 0, timers := [(0, 2000)], nextTimerId := 1,
        trace := trace st_running
          @ [SpinniesUpdate ''devModeStatus'' ''dirty'',
             QueueAdd (WatchTask \<lparr>event = Add, filePath = ''/proj/src/a.html'',
                                  remotePath = ''a.html''\<rparr>),
             SpinniesAdd ''/proj/src/a.html'' ''Uploading change for a.html'',
             CallUploadFileToBuild ''/proj/src/a.html'' ''a.html'']\<rparr>"
  by (simp add: st_uploading_def st_running_eq all_defs rt_defs env0_def)

lemma st_deploying_eq:
  "st_deploying =
     st_running
       \<lparr>uploadQueue := \<lparr>concurrency = 10, isPaused = True, waiting = [], inflight = []\<rparr>,
        standbyChanges := [\<lparr>change = \<lparr>event = Change, filePath = ''/proj/src/b.css'',
                                       remotePath = ''b.css''\<rparr>, supported = False\<rparr>],
        debouncedBuild := Some 0, nextTimerId := 1, now := 2000,
        trace := trace st_running
          @ [SpinniesUpdate ''devModeStatus'' ''dirty'',
             QueueAdd (WatchTask \<lparr>event = Add, filePath = ''/proj/src/a.html'',
                                  remotePath = ''a.html''\<rparr>),
             SpinniesAdd ''/proj/src/a.html'' ''Uploading change for a.html'',
             CallUploadFileToBuild ''/proj/src/a.html'' ''a.html'',
             SpinniesRemoveAll, SpinniesAdd ''uploading'' ''upload.uploadingChanges'',
             QueuePause, CallQueueBuild, CallPollProjectBuildAndDeploy (Some 1)]\<rparr>"
  by (simp add: st_deploying_def st_running_eq all_defs rt_defs env_deploying_def env0_def)

lemma filling_step:
  assumes "filling n st" and "n < 10"
  shows "filling (Suc n) (step env0 st (Watch fp Change))"
proof -
  let ?ci = "ci_of env0 st fp Change"
  have a: "exitCode st = None" "watching st" "\<not> preventUploads st"
    "\<not> isPaused (uploadQueue st)" "standbyChanges st = []"
    "\<not> shouldIgnoreFile env0 fp False"
    using assms(1) by (simp_all add: filling_def env0_def)
  have r: "replicate n (Fulfilled ()) @ [Fulfilled ()]
             = Fulfilled () # replicate n (Fulfilled ())" for n
    by (simp add: replicate_append_same)
  have s: "step env0 st (Watch fp Change)
             = note_unhandled (fst (queue_add env0 (WatchTask ?ci) (debounceQueueBuild st)))
                 (snd (queue_add env0 (WatchTask ?ci) (debounceQueueBuild st)))"
    using a by (simp add: split_beta handleWatchEvent_empty_buffer(1))
  have q: "filling (Suc n) (snd (queue_add env0 (WatchTask ?ci) (debounceQueueBuild st)))"
    using assms
    by (simp add: filling_def debounceQueueBuild_eq queue_defs sendChanges_def rt_defs
        env0_def ci_of_def Let_def r)
  have "filling m (note_unhandled p s) = filling m s" for m s and p :: "unit promise"
    by (simp add: filling_def note_unhandled_def split: promise.splits)
  then show ?thesis
    unfolding s using q by simp
qed

lemma filling_run:
  assumes "filling n st" and "n + k \<le> 10"
  shows "filling (n + k) (run env0 st (replicate k (Watch fp Change)))"
  using assms
proof (induction k arbitrary: n st)
  case 0
  then show ?case by (simp add: run_def)
next
  case (Suc k)
  have "filling (Suc n) (step env0 st (Watch fp Change))"
    using Suc.prems by (intro filling_step) simp_all
  then have "filling (Suc n + k)
               (run env0 (step env0 st (Watch fp Change)) (replicate k (Watch fp Change)))"
    using Suc.prems(2) by (intro Suc.IH) simp_all
  then show ?case
    by (simp add: run_def)
qed

lemma st_full_eq: "filling 10 st_full"
  using filling_run [of 0 st_running 10 "''/proj/src/a.html''"]
  by (simp add: st_full_def) (simp add: filling_def st_running_eq)

subsection \<open>A full queue, a busy queue\<close>

text \<open>The queue runs, the buffer is empty and no slot is free: the task waits.\<close>

lemma handleWatchEvent_blocked:
  assumes "\<not> preventUploads st" and "\<not> isPaused (uploadQueue st)"
    and "standbyChanges st = []" and "\<not> can_start (uploadQueue st)"
  shows "fst (handleWatchEvent env fp ev st) = Pending"
    and "waiting (uploadQueue (snd (handleWatchEvent env fp ev st)))
           = waiting (uploadQueue st) @ [WatchTask (ci_of env st fp ev)]"
    and "file_calls (trace (snd (handleWatchEvent env fp ev st))) = file_calls (trace st)"
proof -
  let ?d = "debounceQueueBuild st"
  let ?t = "WatchTask (ci_of env st fp ev)"
  have q: "uploadQueue ?d = uploadQueue st" "file_calls (trace ?d) = file_calls (trace st)"
    by (simp_all add: debounceQueueBuild_eq)
  have b: "queue_add env ?t ?d
             = (Pending,
                (emit (QueueAdd ?t) ?d)
                  \<lparr>uploadQueue := (uploadQueue ?d)
                     \<lparr>waiting := waiting (uploadQueue ?d) @ [?t]\<rparr>\<rparr>)"
    using assms(4) by (intro queue_add_blocked) (simp add: q)
  have h: "handleWatchEvent env fp ev st = queue_add env ?t ?d"
    using assms(1-3) by (rule handleWatchEvent_empty_buffer(1))
  show "fst (handleWatchEvent env fp ev st) = Pending"
    by (simp add: h b)
  show "waiting (uploadQueue (snd (handleWatchEvent env fp ev st)))
           = waiting (uploadQueue st) @ [?t]"
    by (simp add: h b q)
  show "file_calls (trace (snd (handleWatchEvent env fp ev st))) = file_calls (trace st)"
    using q(2) by (simp add: h b) (simp add: emit_def)
qed

text \<open>The timer fires while the queue is busy: the callback pauses the queue and waits.\<close>

lemma armed_elapse_late_busy:
  assumes "armed st" and "BUILD_DEBOUNCE_TIME \<le> d" and "\<not> queue_idle (uploadQueue st)"
  shows "step env st (Elapse d)
           = st\<lparr>now := now st + d, timers := [],
                trace := trace st @ [SpinniesRemoveAll,
                                     SpinniesAdd ''uploading'' ''upload.uploadingChanges'',
                                     QueuePause],
                uploadQueue := (uploadQueue st)\<lparr>isPaused := True\<rparr>,
                awaitingIdle := Suc (awaitingIdle st)\<rparr>"
proof -
  let ?s = "st\<lparr>now := now st + d, timers := []\<rparr>"
  have "fst (pauseUploadQueue ?s) = False"
    using assms(3) by (simp add: pauseUploadQueue_snd(2))
  then have "debouncedBuildCallback env ?s
               = (Pending, (snd (pauseUploadQueue ?s))
                    \<lparr>awaitingIdle := Suc (awaitingIdle (snd (pauseUploadQueue ?s)))\<rparr>)"
    by (cases "pauseUploadQueue ?s") (simp add: debouncedBuildCallback_def)
  then show ?thesis
    using assms(1,2)
    by (simp add: armed_def fire_def pauseUploadQueue_snd(1) note_unhandled_def)
qed

text \<open>The last upload in flight settles while one callback waits: the build is queued.\<close>

lemma settle_resume_one:
  assumes "exitCode st = None" and "awaitingIdle st = Suc 0"
    and "inflight (uploadQueue st) = [p]" and "p \<noteq> Pending"
    and "waiting (uploadQueue st) = []"
  shows "qb_count (step env st (Settle 0)) = Suc (qb_count st)"
    and "pause_count (step env st (Settle 0)) = pause_count st"
proof -
  let ?s = "st\<lparr>uploadQueue := (uploadQueue st)\<lparr>inflight := []\<rparr>\<rparr>"
  have n: "queue_next env ?s = ?s"
    using assms(5) by (simp add: queue_next_def note_all_def)
  have s: "step env st (Settle 0) = resume env (Suc 0) (?s\<lparr>awaitingIdle := 0\<rparr>)"
    using assms by (simp add: settle_def n queue_idle_def)
  have e: "exitCode (?s\<lparr>awaitingIdle := 0\<rparr>) = None"
    using assms(1) by simp
  show "qb_count (step env st (Settle 0)) = Suc (qb_count st)"
    unfolding s using e by (simp add: split_beta afterPause_keeps)
  show "pause_count (step env st (Settle 0)) = pause_count st"
    unfolding s by (simp only: resume_keeps) simp
qed

subsection \<open>The buffer is empty while the queue runs\<close>

lemma start_task_queue:
  "uploadQueue (snd (start_task env t st))
     = (uploadQueue st)\<lparr>inflight := inflight (uploadQueue st)
          @ (if settles_at_once env t st then [] else [fst (run_task env t st)])\<rparr>"
  by (simp add: start_task_eq(2))

lemma try_start_bounded:
  "length (inflight (uploadQueue st)) \<le> concurrency (uploadQueue st) \<Longrightarrow>
   length (inflight (uploadQueue (snd (snd (try_start env ts st)))))
     \<le> concurrency (uploadQueue (snd (snd (try_start env ts st))))"
proof (induction ts arbitrary: st)
  case Nil
  then show ?case by simp
next
  case (Cons t ts)
  show ?case
  proof (cases "can_start (uploadQueue st)")
    case False
    then show ?thesis
      using Cons.prems by simp
  next
    case True
    let ?s = "snd (start_task env t st)"
    have b: "length (inflight (uploadQueue ?s)) \<le> concurrency (uploadQueue ?s)"
      using True Cons.prems by (simp add: start_task_queue can_start_def)
    show ?thesis
      using True b Cons.IH [OF b] by (simp add: split_beta)
  qed
qed

text \<open>One slot is free: the queue starts waiting tasks until the slot is taken.\<close>

lemma try_start_fills:
  assumes "\<not> isPaused (uploadQueue st)"
    and "concurrency (uploadQueue st) = Suc (length (inflight (uploadQueue st)))"
  shows "can_start (uploadQueue (snd (snd (try_start env ts st)))) \<longrightarrow>
         fst (snd (try_start env ts st)) = []"
  using assms
proof (induction ts arbitrary: st)
  case Nil
  then show ?case by simp
next
  case (Cons t ts)
  let ?s = "snd (start_task env t st)"
  have c: "can_start (uploadQueue st)"
    using Cons.prems by (simp add: can_start_def)
  show ?case
  proof (cases "settles_at_once env t st")
    case True
    then have "uploadQueue ?s = uploadQueue st"
      by (simp add: start_task_queue)
    then show ?thesis
      using c True Cons.IH [of ?s] Cons.prems by (simp add: split_beta)
  next
    case False
    then have "\<not> can_start (uploadQueue ?s)"
      using Cons.prems by (simp add: start_task_queue can_start_def)
    then show ?thesis
      using c False by (simp add: split_beta)
  qed
qed

lemma orderly_waiting [simp]:
  "orderly (q\<lparr>waiting := []\<rparr>) = (length (inflight q) \<le> concurrency q)"
  by (simp add: orderly_def can_start_def)

lemma queue_add_orderly:
  assumes "orderly (uploadQueue st)"
  shows "orderly (uploadQueue (snd (queue_add env t st)))"
proof (cases "can_start (uploadQueue st)")
  case False
  then show ?thesis
    using assms by (simp add: queue_add_blocked) (simp add: orderly_def can_start_def)
next
  case True
  let ?e = "emit (QueueAdd t) st"
  have e: "uploadQueue ?e = uploadQueue st"
    by (simp add: emit_def)
  have w: "waiting (uploadQueue ?e) = []" "can_start (uploadQueue ?e)"
    using assms True by (simp_all add: e orderly_def)
  have "length (inflight (uploadQueue (snd (start_task env t ?e))))
          \<le> concurrency (uploadQueue (snd (start_task env t ?e)))"
    using True by (simp add: start_task_queue e can_start_def)
  then show ?thesis
    using w by (simp add: queue_add_def Let_def split_beta)
qed

lemma queue_next_orderly:
  assumes "orderly (uploadQueue st)"
    and "Suc (length xs) = length (inflight (uploadQueue st))"
  shows "orderly (uploadQueue (queue_next env
           (st\<lparr>uploadQueue := (uploadQueue st)\<lparr>inflight := xs\<rparr>\<rparr>)))"
proof -
  let ?q = "uploadQueue st"
  let ?s = "st\<lparr>uploadQueue := ?q\<lparr>inflight := xs\<rparr>\<rparr>"
  let ?r = "try_start env (waiting (uploadQueue ?s)) ?s"
  have b: "length (inflight (uploadQueue ?s)) \<le> concurrency (uploadQueue ?s)"
    using assms by (simp add: orderly_def)
  have b': "length (inflight (uploadQueue (snd (snd ?r))))
              \<le> concurrency (uploadQueue (snd (snd ?r)))"
    using b by (rule try_start_bounded)
  have n: "uploadQueue (queue_next env ?s)
             = (uploadQueue (snd (snd ?r)))\<lparr>waiting := fst (snd ?r)\<rparr>"
    by (simp add: queue_next_def split_beta)
  have "can_start (uploadQueue (snd (snd ?r))) \<longrightarrow> fst (snd ?r) = []"
  proof (cases "waiting ?q = [] \<or> isPaused ?q")
    case True
    then show ?thesis
      by (auto simp: try_start_blocked can_start_def)
  next
    case False
    then have "\<not> can_start ?q" "\<not> isPaused ?q"
      using assms(1) by (auto simp: orderly_def)
    then have "concurrency ?q = length (inflight ?q)"
      using assms(1) by (simp add: orderly_def can_start_def)
    then have "concurrency (uploadQueue ?s) = Suc (length (inflight (uploadQueue ?s)))"
      using assms(2) by simp
    then show ?thesis
      using False by (intro try_start_fills) simp_all
  qed
  then show ?thesis
    using b' by (simp add: n orderly_def can_start_def)
qed

lemma steady_trace [simp]:
  "steady (st\<lparr>trace := tr\<rparr>) = steady st"
  "steady (emit e st) = steady st"
  "steady (note_unhandled p st) = steady st"
  "paused_idle (st\<lparr>trace := tr\<rparr>) = paused_idle st"
  "paused_idle (emit e st) = paused_idle st"
  by (simp_all add: steady_def paused_idle_def emit_def timer_inv_def unsupported_only_def
      note_unhandled_def split: promise.splits)

lemma steady_stop [simp]:
  "steady (snd (stop env st)) = steady st"
  by (subst stop_snd) (simp add: steady_def timer_inv_def unsupported_only_def)

lemma steady_createNewStagingBuild [simp]:
  "steady (snd (createNewStagingBuild env st)) = steady st"
  "paused_idle (snd (createNewStagingBuild env st)) = paused_idle st"
  by (subst createNewStagingBuild_snd,
      simp add: steady_def paused_idle_def timer_inv_def unsupported_only_def)+

lemma startUploadQueue_paused_idle:
  assumes "paused_idle st"
  shows "timer_inv (startUploadQueue env st)"
    and "unsupported_only (startUploadQueue env st)"
    and "concurrency (uploadQueue (startUploadQueue env st)) = 10"
    and "can_start (uploadQueue (startUploadQueue env st))"
    and "waiting (uploadQueue (startUploadQueue env st)) = []"
    and "awaitingIdle (startUploadQueue env st) = 0"
    and "\<not> isPaused (uploadQueue (startUploadQueue env st))"
proof -
  have q: "queue_start env st
             = (emit QueueStart st)\<lparr>uploadQueue := (uploadQueue st)\<lparr>isPaused := False\<rparr>\<rparr>"
    using assms
    by (simp add: queue_start_def paused_idle_def queue_idle_def Let_def note_all_def emit_def)
  show "timer_inv (startUploadQueue env st)"
    and "unsupported_only (startUploadQueue env st)"
    and "concurrency (uploadQueue (startUploadQueue env st)) = 10"
    and "can_start (uploadQueue (startUploadQueue env st))"
    and "waiting (uploadQueue (startUploadQueue env st)) = []"
    and "awaitingIdle (startUploadQueue env st) = 0"
    and "\<not> isPaused (uploadQueue (startUploadQueue env st))"
    using assms
    by (simp_all add: startUploadQueue_eq q paused_idle_def steady_def queue_idle_def
        can_start_def emit_def timer_inv_def unsupported_only_def)
qed

lemma flushStandbyChanges_steady:
  assumes "timer_inv st" and "unsupported_only st" and "concurrency (uploadQueue st) = 10"
    and "can_start (uploadQueue st)" and "waiting (uploadQueue st) = []"
    and "awaitingIdle st = 0"
  shows "steady (snd (flushStandbyChanges env st))"
proof -
  let ?f = "snd (flushStandbyChanges env st)"
  have "timer_inv ?f" "unsupported_only ?f"
    using assms(1,2) by (simp_all add: method_timer_inv method_unsupported)
  moreover have "uploadQueue ?f = uploadQueue st" "standbyChanges ?f = []"
    using flushStandbyChanges_free(2,4) [OF assms(4,5)] by simp_all
  moreover have "awaitingIdle ?f = 0"
    using assms(6) by (simp add: flushStandbyChanges_frame)
  ultimately show ?thesis
    using assms(3-5) by (simp add: steady_def can_start_def orderly_def)
qed

lemma afterPause_steady:
  assumes "paused_idle st"
  shows "steady (snd (afterPause env st))"
proof -
  have s: "steady st"
    using assms by (simp add: paused_idle_def)
  have r: "steady (snd (flushStandbyChanges env (startUploadQueue env s')))"
    "\<not> hasAnyUnsupportedStandbyChanges (startUploadQueue env s') \<Longrightarrow>
       steady (startUploadQueue env s')"
    if "paused_idle s'" for s'
  proof -
    note u = startUploadQueue_paused_idle [OF that, of env]
    show "steady (snd (flushStandbyChanges env (startUploadQueue env s')))"
      using u(1-6) by (rule flushStandbyChanges_steady)
    assume "\<not> hasAnyUnsupportedStandbyChanges (startUploadQueue env s')"
    then have "standbyChanges (startUploadQueue env s') = []"
      using u(2)
      by (cases "standbyChanges (startUploadQueue env s')")
        (simp_all add: hasAnyUnsupportedStandbyChanges_def unsupported_only_def)
    then show "steady (startUploadQueue env s')"
      using u by (simp add: steady_def orderly_def can_start_def)
  qed
  show ?thesis
    using assms s
    by (simp add: afterPause_def Let_def split_beta updateDevModeStatus_def r
        split: option.splits sum.splits promise.splits)
qed

lemma debouncedBuildCallback_steady:
  assumes "timer_inv st" and "unsupported_only st" and "concurrency (uploadQueue st) = 10"
    and "awaitingIdle st = 0" and "timers st = []" and "orderly (uploadQueue st)"
  shows "steady (snd (debouncedBuildCallback env st))"
proof -
  let ?p = "snd (pauseUploadQueue st)"
  have p: "steady ?p" "isPaused (uploadQueue ?p)" "awaitingIdle ?p = 0" "timers ?p = []"
    using assms
    by (simp_all add: pauseUploadQueue_snd steady_def timer_inv_def unsupported_only_def
        orderly_def can_start_def)
  have d: "debouncedBuildCallback env st
             = (if queue_idle (uploadQueue st) then afterPause env ?p
                else (Pending, ?p\<lparr>awaitingIdle := Suc (awaitingIdle ?p)\<rparr>))"
    by (simp add: debouncedBuildCallback_def split_beta pauseUploadQueue_snd(2)
        split: bool.splits)
  show ?thesis
  proof (cases "queue_idle (uploadQueue st)")
    case True
    then have "paused_idle ?p"
      using p by (simp add: paused_idle_def) (simp add: pauseUploadQueue_snd queue_idle_def)
    then show ?thesis
      using True by (simp add: d afterPause_steady)
  next
    case False
    have "steady (?p\<lparr>awaitingIdle := Suc 0\<rparr>)"
      using p by (simp add: steady_def timer_inv_def unsupported_only_def)
    then show ?thesis
      using False p(3) by (simp add: d)
  qed
qed

lemma fire_steady: "steady st \<Longrightarrow> steady (fire env st)"
proof (cases "find (\<lambda>t. snd t \<le> now st) (timers st)")
  case None
  assume "steady st"
  then show ?thesis
    using None by (simp add: fire_def)
next
  case (Some t)
  assume s: "steady st"
  have m: "t \<in> set (timers st)"
    using Some by (auto simp: find_Some_iff)
  then have "timers st = [t]"
    using s by (cases "timers st") (auto simp: steady_def timer_inv_def)
  then have r: "timers (st\<lparr>timers := remove1 t (timers st)\<rparr>) = []"
    by simp
  have "\<not> isPaused (uploadQueue st)"
    using s m by (auto simp: steady_def)
  then have a: "awaitingIdle st = 0"
    using s by (simp add: steady_def)
  have "steady (snd (debouncedBuildCallback env (st\<lparr>timers := remove1 t (timers st)\<rparr>)))"
    using s a r
    by (intro debouncedBuildCallback_steady)
      (simp_all add: steady_def timer_inv_def unsupported_only_def)
  then show ?thesis
    using Some by (simp add: fire_def split_beta)
qed

lemma queue_next_paused: "isPaused (uploadQueue st) \<Longrightarrow> queue_next env st = st"
proof -
  assume "isPaused (uploadQueue st)"
  then have "\<not> can_start (uploadQueue st)"
    by (simp add: can_start_def)
  then show ?thesis
    by (simp add: queue_next_def try_start_blocked note_all_def)
qed

lemma length_remove_nth:
  "i < length xs \<Longrightarrow> Suc (length (take i xs @ drop (Suc i) xs)) = length xs"
  by (simp add: min_def)

lemma settle_steady: "steady st \<Longrightarrow> steady (settle env i st)"
proof (cases "i < length (inflight (uploadQueue st))")
  case False
  assume "steady st"
  then show ?thesis
    using False by (simp add: settle_def)
next
  case True
  assume s: "steady st"
  let ?q = "uploadQueue st"
  let ?xs = "take i (inflight ?q) @ drop (Suc i) (inflight ?q)"
  let ?s0 = "st\<lparr>uploadQueue := ?q\<lparr>inflight := ?xs\<rparr>\<rparr>"
  let ?s1 = "queue_next env ?s0"
  have o: "orderly (uploadQueue ?s1)"
    using s length_remove_nth [OF True]
    by (intro queue_next_orderly) (simp_all add: steady_def del: length_append)
  have k: "timer_inv ?s1" "unsupported_only ?s1"
    using s queue_next_keeps(2) [of ?s0 env]
    by (simp_all add: steady_def keeps_def)
  have f: "isPaused (uploadQueue ?s1) = isPaused ?q" "concurrency (uploadQueue ?s1) = 10"
    "awaitingIdle ?s1 = awaitingIdle st" "standbyChanges ?s1 = standbyChanges st"
    using s queue_next_keeps(1) [of ?s0 env]
    by (simp_all add: steady_def pipeline_frame_def)
  have t: "timers ?s1 = timers st" if "isPaused ?q"
    using that by (simp add: queue_next_paused)
  have s1: "steady ?s1"
    using s o k f t by (auto simp: steady_def)
  have z: "steady (?s1\<lparr>awaitingIdle := 0\<rparr>)"
    using s1 by (simp add: steady_def timer_inv_def unsupported_only_def)
  have r: "steady (resume env (awaitingIdle ?s1) (?s1\<lparr>awaitingIdle := 0\<rparr>))"
    if i: "queue_idle (uploadQueue ?s1)"
  proof (cases "awaitingIdle ?s1")
    case 0
    then show ?thesis
      using z by simp
  next
    case (Suc k)
    then have k: "k = 0"
      using s1 by (simp add: steady_def)
    have "isPaused (uploadQueue ?s1)"
      using s1 Suc by (auto simp: steady_def)
    then have "paused_idle (?s1\<lparr>awaitingIdle := 0\<rparr>)"
      using z i by (simp add: paused_idle_def)
    then have "steady (snd (afterPause env (?s1\<lparr>awaitingIdle := 0\<rparr>)))"
      by (rule afterPause_steady)
    then show ?thesis
      using z by (simp add: Suc k split_beta)
  qed
  show ?thesis
    using s s1 r by (simp add: settle_def Let_def)
qed

lemma handleWatchEvent_steady:
  assumes "steady st"
  shows "steady (snd (handleWatchEvent env fp ev st))"
proof -
  let ?h = "snd (handleWatchEvent env fp ev st)"
  have k: "timer_inv ?h" "unsupported_only ?h"
    using assms handleWatchEvent_keeps [of st env fp ev]
    by (simp_all add: steady_def keeps_def)
  consider (prevent) "preventUploads st"
    | (paused) "\<not> preventUploads st" "isPaused (uploadQueue st)"
    | (running) "\<not> preventUploads st" "\<not> isPaused (uploadQueue st)"
    by blast
  then show ?thesis
  proof cases
    case prevent
    then show ?thesis
      using assms by (simp add: handleWatchEvent_prevented)
  next
    case paused
    then have "uploadQueue ?h = uploadQueue st \<and> awaitingIdle ?h = awaitingIdle st
             \<and> timers ?h = timers st"
      by (simp add: handleWatchEvent_def notifyServers_def Let_def addChangeToStandbyQueue_def
          emit_def)
    then show ?thesis
      using assms k paused(2) by (simp add: steady_def)
  next
    case running
    then have e: "standbyChanges st = []" "awaitingIdle st = 0"
      using assms by (simp_all add: steady_def)
    let ?d = "debounceQueueBuild st"
    have h: "handleWatchEvent env fp ev st
               = queue_add env (WatchTask (ci_of env st fp ev)) ?d"
      using running e(1) by (rule handleWatchEvent_empty_buffer(1))
    have "pipeline_frame st ?h"
      using pipeline_frame_trans [OF debounceQueueBuild_frame(1) queue_add_keeps(1)]
      by (simp add: h)
    moreover have "orderly (uploadQueue ?h)"
      using assms unfolding h
      by (intro queue_add_orderly) (simp add: steady_def debounceQueueBuild_frame(2))
    ultimately show ?thesis
      using assms k running(2) e by (simp add: steady_def pipeline_frame_def)
  qed
qed

lemma step_steady: "steady st \<Longrightarrow> steady (step env st i)"
proof (cases i)
  case (Watch fp ev)
  assume "steady st"
  then show ?thesis
    unfolding Watch by (simp add: split_beta handleWatchEvent_steady)
next
  case (Elapse n)
  assume "steady st"
  then have "steady (st\<lparr>now := now st + n\<rparr>)"
    by (simp add: steady_def timer_inv_def unsupported_only_def)
  then show ?thesis
    unfolding Elapse using \<open>steady st\<close> by (simp add: fire_steady)
next
  case Stop
  assume "steady st"
  then show ?thesis
    unfolding Stop by (simp add: split_beta)
next
  case (Settle k)
  assume "steady st"
  then show ?thesis
    unfolding Settle by (simp add: settle_steady)
qed

lemma run_steady: "steady st \<Longrightarrow> steady (run env st is)"
  by (induction "is" arbitrary: st) (simp_all add: run_def step_steady)

lemma start_steady: "steady (snd (start env (constructor opts)))"
proof -
  let ?c = "(constructor opts)\<lparr>uploadQueue := new_PQueue 10\<rparr>"
  have q: "queue_start env ?c = emit QueueStart ?c"
    by (simp add: queue_start_def new_PQueue_def Let_def emit_def)
  have "steady ?c"
    by (simp add: steady_def constructor_def new_PQueue_def timer_inv_def unsupported_only_def
        orderly_def)
  then have u: "steady (startUploadQueue env ?c)"
    by (simp add: startUploadQueue_eq q)
  have w: "steady (s\<lparr>watching := x\<rparr>) = steady s" for s x
    by (simp add: steady_def timer_inv_def unsupported_only_def)
  show ?thesis
    using u
    by (simp add: start_def startWatching_def startServers_def Let_def split_beta w
        split: promise.splits)
qed

section \<open>The claims\<close>

subsection \<open>Accepted events\<close>




subsection \<open>Provisioning\<close>

text \<open>
  Claim C2, as amended. When provisioning fails, it is not tried again and no staged
  build is recorded. After a failure other than a project lock the process exits with
  the error code, and nothing is cancelled. After a project-locked failure the stale
  build is cancelled once; if the cancel succeeds, the cancellation is logged and the
  process exits with the error code; if the cancel fails, nothing is logged, the process
  does not exit, and \<^verbatim>\<open>createNewStagingBuild\<close> rejects with the error of the cancel;
  if the cancel never returns, neither does \<^verbatim>\<open>createNewStagingBuild\<close>.
\<close>

theorem createNewStagingBuild_failure:
  assumes "await (provisionBuild env (trace st)) = Some (Inl err)"
  shows "count_list (trace (snd (createNewStagingBuild env st))) CallProvisionBuild
           = Suc (count_list (trace st) CallProvisionBuild)
       \<and> currentStagedBuildId (snd (createNewStagingBuild env st)) = currentStagedBuildId st
       \<and> (err \<noteq> PROJECT_LOCKED \<longrightarrow>
            exitCode (snd (createNewStagingBuild env st)) = Some ERROR
          \<and> trace (snd (createNewStagingBuild env st))
              = trace st @ [CallProvisionBuild, LoggerDebugError err, ProcessExit ERROR])
       \<and> (err = PROJECT_LOCKED
            \<and> await (cancelStagedBuild env
                 (trace st @ [CallProvisionBuild, LoggerDebugError err])) = Some (Inr ()) \<longrightarrow>
            exitCode (snd (createNewStagingBuild env st)) = Some ERROR
          \<and> trace (snd (createNewStagingBuild env st))
              = trace st @ [CallProvisionBuild, LoggerDebugError err, CallCancelStagedBuild,
                            LoggerLog ''previousStagingBuildCancelled'', ProcessExit ERROR])
       \<and> (err = PROJECT_LOCKED
            \<and> await (cancelStagedBuild env
                 (trace st @ [CallProvisionBuild, LoggerDebugError err])) = Some (Inl e) \<longrightarrow>
            fst (createNewStagingBuild env st) = Rejected e
          \<and> exitCode (snd (createNewStagingBuild env st)) = exitCode st
          \<and> trace (snd (createNewStagingBuild env st))
              = trace st @ [CallProvisionBuild, LoggerDebugError err, CallCancelStagedBuild])
       \<and> (err = PROJECT_LOCKED
            \<and> await (cancelStagedBuild env
                 (trace st @ [CallProvisionBuild, LoggerDebugError err])) = None \<longrightarrow>
            fst (createNewStagingBuild env st) = Pending
          \<and> exitCode (snd (createNewStagingBuild env st)) = exitCode st
          \<and> trace (snd (createNewStagingBuild env st))
              = trace st @ [CallProvisionBuild, LoggerDebugError err, CallCancelStagedBuild])"
  using assms
  by (cases "await (cancelStagedBuild env
               (trace st @ [CallProvisionBuild, LoggerDebugError err]))")
    (auto simp: createNewStagingBuild_def rt_defs isSpecifiedError_def Let_def
      split: sum.splits)

theorem createNewStagingBuild_failure_witness:
  "await (provisionBuild env_locked (trace (constructor opts0))) = Some (Inl PROJECT_LOCKED)
   \<and> await (cancelStagedBuild env_locked
        (trace (constructor opts0) @ [CallProvisionBuild, LoggerDebugError PROJECT_LOCKED]))
       = Some (Inr ())
   \<and> exitCode (snd (createNewStagingBuild env_locked (constructor opts0))) = Some ERROR
   \<and> trace (snd (createNewStagingBuild env_locked (constructor opts0)))
       = [CallProvisionBuild, LoggerDebugError PROJECT_LOCKED, CallCancelStagedBuild,
          LoggerLog ''previousStagingBuildCancelled'', ProcessExit ERROR]
   \<and> await (provisionBuild env_locked_twice (trace (constructor opts0)))
       = Some (Inl PROJECT_LOCKED)
   \<and> await (cancelStagedBuild env_locked_twice
        (trace (constructor opts0) @ [CallProvisionBuild, LoggerDebugError PROJECT_LOCKED]))
       = Some (Inl OTHER_ERROR)
   \<and> fst (createNewStagingBuild env_locked_twice (constructor opts0)) = Rejected OTHER_ERROR
   \<and> exitCode (snd (createNewStagingBuild env_locked_twice (constructor opts0))) = None
   \<and> trace (snd (createNewStagingBuild env_locked_twice (constructor opts0)))
       = [CallProvisionBuild, LoggerDebugError PROJECT_LOCKED, CallCancelStagedBuild]
   \<and> await (provisionBuild env_down (trace (constructor opts0))) = Some (Inl OTHER_ERROR)
   \<and> OTHER_ERROR \<noteq> PROJECT_LOCKED
   \<and> exitCode (snd (createNewStagingBuild env_down (constructor opts0))) = Some ERROR
   \<and> trace (snd (createNewStagingBuild env_down (constructor opts0)))
       = [CallProvisionBuild, LoggerDebugError OTHER_ERROR, ProcessExit ERROR]"
proof -
  have c: "trace (constructor opts0) = []" "exitCode (constructor opts0) = None"
    by (simp_all add: constructor_def)
  have a: "await (provisionBuild env_locked (trace (constructor opts0)))
             = Some (Inl PROJECT_LOCKED)"
    "await (cancelStagedBuild env_locked
        (trace (constructor opts0) @ [CallProvisionBuild, LoggerDebugError PROJECT_LOCKED]))
       = Some (Inr ())"
    by (simp_all add: env_locked_def env0_def constructor_def)
  have b: "await (provisionBuild env_locked_twice (trace (constructor opts0)))
             = Some (Inl PROJECT_LOCKED)"
    "await (cancelStagedBuild env_locked_twice
        (trace (constructor opts0) @ [CallProvisionBuild, LoggerDebugError PROJECT_LOCKED]))
       = Some (Inl OTHER_ERROR)"
    by (simp_all add: env_locked_twice_def env_locked_def env0_def constructor_def)
  have d: "await (provisionBuild env_down (trace (constructor opts0))) = Some (Inl OTHER_ERROR)"
    by (simp add: env_down_def env0_def)
  have 1: "exitCode (snd (createNewStagingBuild env_locked (constructor opts0))) = Some ERROR"
    "trace (snd (createNewStagingBuild env_locked (constructor opts0)))
       = [CallProvisionBuild, LoggerDebugError PROJECT_LOCKED, CallCancelStagedBuild,
          LoggerLog ''previousStagingBuildCancelled'', ProcessExit ERROR]"
    using createNewStagingBuild_failure [OF a(1)] a(2) by (simp_all add: c)
  have 2: "fst (createNewStagingBuild env_locked_twice (constructor opts0))
             = Rejected OTHER_ERROR"
    "exitCode (snd (createNewStagingBuild env_locked_twice (constructor opts0))) = None"
    "trace (snd (createNewStagingBuild env_locked_twice (constructor opts0)))
       = [CallProvisionBuild, LoggerDebugError PROJECT_LOCKED, CallCancelStagedBuild]"
    using createNewStagingBuild_failure [OF b(1), where e = OTHER_ERROR] b(2)
    by (simp_all add: c)
  have 3: "exitCode (snd (createNewStagingBuild env_down (constructor opts0))) = Some ERROR"
    "trace (snd (createNewStagingBuild env_down (constructor opts0)))
       = [CallProvisionBuild, LoggerDebugError OTHER_ERROR, ProcessExit ERROR]"
    using createNewStagingBuild_failure [OF d] by (simp_all add: c)
  show ?thesis
    using a b d 1 2 3 by simp
qed

text \<open>
  The claim as stated fails: the project is locked, the cancel succeeds, a second
  provisioning would succeed, and yet the process exits with the error code after a
  single provisioning call.
\<close>

theorem createNewStagingBuild_no_retry:
  "exitCode (snd (createNewStagingBuild env_locked (constructor opts0))) = Some ERROR
   \<and> count_list (trace (snd (createNewStagingBuild env_locked (constructor opts0))))
        CallProvisionBuild = 1
   \<and> count_list (trace (snd (createNewStagingBuild env_locked (constructor opts0))))
        CallCancelStagedBuild = 1
   \<and> cancelStagedBuild env_locked [CallProvisionBuild, LoggerDebugError PROJECT_LOCKED]
        = Promise (Fulfilled ())
   \<and> provisionBuild env_locked
        (trace (snd (createNewStagingBuild env_locked (constructor opts0))))
        = Promise (Fulfilled 7)"
  by (simp add: createNewStagingBuild_def rt_defs isSpecifiedError_def env_locked_def env0_def
      constructor_def)

subsection \<open>A failing upload\<close>

text \<open>
  Claim C3 does not hold of the code. The upload of \<^verbatim>\<open>a.html\<close> is answered by a
  promise that rejects: \<^verbatim>\<open>sendChanges\<close> logs nothing and its own promise rejects, so
  does the promise of \<^verbatim>\<open>handleWatchEvent\<close>, and the rejection is left unhandled.
\<close>

theorem sendChanges_rejection_escapes:
  "fst (sendChanges env_reject ci_a st_running) = Rejected OTHER_ERROR
   \<and> trace (snd (sendChanges env_reject ci_a st_running))
       = trace st_running
         @ [SpinniesAdd ''/proj/src/a.html'' ''Uploading change for a.html'',
            CallUploadFileToBuild ''/proj/src/a.html'' ''a.html'']
   \<and> fst (handleWatchEvent env_reject ''/proj/src/a.html'' Add st_running) = Rejected OTHER_ERROR
   \<and> unhandled (step env_reject st_running (Watch ''/proj/src/a.html'' Add)) = [OTHER_ERROR]"
  by (simp add: st_running_eq all_defs rt_defs env_reject_def env0_def ci_a_def)

subsection \<open>Flushing\<close>



subsection \<open>Prevented uploads\<close>

text \<open>
  Claim C5. With \<^verbatim>\<open>preventUploads\<close> set, whatever reaches a started manager, no build
  is ever provisioned, nothing is ever handed to the upload queue and no file is ever
  uploaded or deleted; a watch event only updates the status line and adds the
  upload-prevented warning for its path.
\<close>

theorem preventUploads_never_uploads:
  assumes "opt_preventUploads opts" and "preventUploads st"
  shows "CallProvisionBuild \<notin> set (trace (run env (snd (start env (constructor opts))) inputs))
       \<and> submissions (trace (run env (snd (start env (constructor opts))) inputs)) = []
       \<and> file_calls (trace (run env (snd (start env (constructor opts))) inputs)) = []
       \<and> handleWatchEvent env fp ev st
           = (Fulfilled (),
              st\<lparr>trace := trace st
                   @ [SpinniesUpdate ''devModeStatus'' ''uploadPrevented'',
                      SpinniesAdd fp (''[WARNING] Upload prevented for ''
                                        @ relative env (projectSourceDir st) fp)]\<rparr>)"
  using run_prevented [OF start_prevented [OF assms(1)], of env env inputs]
    handleWatchEvent_prevented [OF assms(2)]
  by (simp add: prevented_def quiet_def)

theorem preventUploads_never_uploads_witness:
  "opt_preventUploads opts_prevent \<and> preventUploads st_prevent
   \<and> CallProvisionBuild \<notin> set (trace (run env0 (snd (start env0 (constructor opts_prevent)))
        [Watch ''/proj/src/a.html'' Add, Elapse 2000, Watch ''/proj/src/b.css'' Unlink, Stop]))
   \<and> submissions (trace (run env0 (snd (start env0 (constructor opts_prevent)))
        [Watch ''/proj/src/a.html'' Add, Elapse 2000, Watch ''/proj/src/b.css'' Unlink, Stop]))
       = []
   \<and> file_calls (trace (run env0 (snd (start env0 (constructor opts_prevent)))
        [Watch ''/proj/src/a.html'' Add, Elapse 2000, Watch ''/proj/src/b.css'' Unlink, Stop]))
       = []
   \<and> trace (snd (handleWatchEvent env0 ''/proj/src/a.html'' Add st_prevent))
       = trace st_prevent
         @ [SpinniesUpdate ''devModeStatus'' ''uploadPrevented'',
            SpinniesAdd ''/proj/src/a.html'' ''[WARNING] Upload prevented for a.html'']"
proof -
  have a: "opt_preventUploads opts_prevent"
    by (simp add: opts_prevent_def)
  have b: "preventUploads st_prevent"
    "relative env0 (projectSourceDir st_prevent) ''/proj/src/a.html'' = ''a.html''"
    by (simp_all add: st_prevent_eq env0_def)
  show ?thesis
    using a b(1)
      preventUploads_never_uploads [OF a b(1), where env = env0 and inputs =
        "[Watch ''/proj/src/a.html'' Add, Elapse 2000, Watch ''/proj/src/b.css'' Unlink, Stop]"
        and fp = "''/proj/src/a.html''" and ev = Add]
    by (simp add: b(2))
qed

subsection \<open>The debounce timer\<close>

text \<open>
  Claim C6. The delay is the constant 2000 ms. Whatever reaches a started manager, at
  most one timer is outstanding. Arming leaves exactly one timer, due one window after
  the moment of arming, whatever timer there was. If the timer is armed and then armed
  again any number of times, each time before it is due, then exactly one timer is
  outstanding, it is due one window after the last arming, and its callback has not run
  meanwhile; the callback does not run before the window has passed, and it runs exactly
  once when the window has passed. The callback pauses the upload queue and waits until
  the queue is idle before it queues the build: the build is queued at that very moment
  when the queue is idle, and otherwise not before the uploads in flight have settled,
  once and no more when the last of them settles.
\<close>

theorem debounce_single_timer:
  assumes "exitCode st = None" and "timer_inv st"
    and "list_all (\<lambda>d. d < BUILD_DEBOUNCE_TIME) ds"
  shows "BUILD_DEBOUNCE_TIME = 2000
       \<and> length (timers (run env (snd (start env (constructor opts))) inputs)) \<le> 1
       \<and> timers (debounceQueueBuild st) = [(nextTimerId st, now st + BUILD_DEBOUNCE_TIME)]
       \<and> length (timers (rearm env ds (debounceQueueBuild st))) = 1
       \<and> snd (hd (timers (rearm env ds (debounceQueueBuild st))))
           = now (rearm env ds (debounceQueueBuild st)) + BUILD_DEBOUNCE_TIME
       \<and> pause_count (rearm env ds (debounceQueueBuild st)) = pause_count st
       \<and> qb_count (rearm env ds (debounceQueueBuild st)) = qb_count st
       \<and> (n < BUILD_DEBOUNCE_TIME \<longrightarrow>
            pause_count (step env (rearm env ds (debounceQueueBuild st)) (Elapse n))
              = pause_count st
          \<and> qb_count (step env (rearm env ds (debounceQueueBuild st)) (Elapse n))
              = qb_count st)
       \<and> (BUILD_DEBOUNCE_TIME \<le> n \<longrightarrow>
            pause_count (step env (rearm env ds (debounceQueueBuild st)) (Elapse n))
              = Suc (pause_count st)
          \<and> qb_count (step env (rearm env ds (debounceQueueBuild st)) (Elapse n))
              = (if queue_idle (uploadQueue st) then Suc (qb_count st) else qb_count st))
       \<and> (BUILD_DEBOUNCE_TIME \<le> n \<and> awaitingIdle st = 0
            \<and> waiting (uploadQueue st) = [] \<and> inflight (uploadQueue st) = [p]
            \<and> p \<noteq> Pending \<longrightarrow>
            pause_count
              (step env (step env (rearm env ds (debounceQueueBuild st)) (Elapse n)) (Settle 0))
              = Suc (pause_count st)
          \<and> qb_count
              (step env (step env (rearm env ds (debounceQueueBuild st)) (Elapse n)) (Settle 0))
              = Suc (qb_count st))"
proof -
  let ?r = "rearm env ds (debounceQueueBuild st)"
  have a: "armed (debounceQueueBuild st)" "qb_count (debounceQueueBuild st) = qb_count st"
    "pause_count (debounceQueueBuild st) = pause_count st"
    "uploadQueue (debounceQueueBuild st) = uploadQueue st"
    using assms(1,2) by (rule armed_debounceQueueBuild)+
  have i: "awaitingIdle (debounceQueueBuild st) = awaitingIdle st"
    by (simp add: debounceQueueBuild_eq)
  have r: "armed ?r" "qb_count ?r = qb_count st" "pause_count ?r = pause_count st"
    "uploadQueue ?r = uploadQueue st" "awaitingIdle ?r = awaitingIdle st"
    using rearm_armed [OF a(1) assms(3), of env] a(2-4) i by simp_all
  have early: "pause_count (step env ?r (Elapse n)) = pause_count st
             \<and> qb_count (step env ?r (Elapse n)) = qb_count st"
    if "n < BUILD_DEBOUNCE_TIME"
    using armed_elapse_early [OF r(1) that, of env] r(2,3) by simp
  have late: "pause_count (step env ?r (Elapse n)) = Suc (pause_count st)
            \<and> qb_count (step env ?r (Elapse n))
                = (if queue_idle (uploadQueue st) then Suc (qb_count st) else qb_count st)"
    if "BUILD_DEBOUNCE_TIME \<le> n"
    using armed_elapse_late(1,2) [OF r(1) that, of env] r(2-4) by simp
  have busy: "pause_count (step env (step env ?r (Elapse n)) (Settle 0)) = Suc (pause_count st)
            \<and> qb_count (step env (step env ?r (Elapse n)) (Settle 0)) = Suc (qb_count st)"
    if h: "BUILD_DEBOUNCE_TIME \<le> n \<and> awaitingIdle st = 0
           \<and> waiting (uploadQueue st) = [] \<and> inflight (uploadQueue st) = [p]
           \<and> p \<noteq> Pending"
  proof -
    let ?e = "step env ?r (Elapse n)"
    have b: "\<not> queue_idle (uploadQueue ?r)"
      using h by (simp add: r(4) queue_idle_def)
    have e: "?e = ?r\<lparr>now := now ?r + n, timers := [],
                trace := trace ?r @ [SpinniesRemoveAll,
                                     SpinniesAdd ''uploading'' ''upload.uploadingChanges'',
                                     QueuePause],
                uploadQueue := (uploadQueue ?r)\<lparr>isPaused := True\<rparr>,
                awaitingIdle := Suc (awaitingIdle ?r)\<rparr>"
      using h b by (intro armed_elapse_late_busy r(1)) simp_all
    have x: "exitCode ?e = None" "awaitingIdle ?e = Suc 0"
      "inflight (uploadQueue ?e) = [p]" "p \<noteq> Pending" "waiting (uploadQueue ?e) = []"
      unfolding e using h r(1) by (simp_all add: r(4,5) armed_def)
    have l: "pause_count ?e = Suc (pause_count st)" "qb_count ?e = qb_count st"
      using late h b by (simp_all add: r(4))
    show ?thesis
      using settle_resume_one [OF x] l by simp
  qed
  have one: "length (timers (run env (snd (start env (constructor opts))) inputs)) \<le> 1"
    using run_keeps(1) [OF start_keeps(1)] by (simp add: timer_inv_def)
  have t: "timers ?r = [(the (debouncedBuild ?r), now ?r + BUILD_DEBOUNCE_TIME)]"
    using r(1) by (simp add: armed_def)
  have w: "BUILD_DEBOUNCE_TIME = 2000"
    by (simp add: BUILD_DEBOUNCE_TIME_def)
  have tl: "length (timers ?r) = 1" "snd (hd (timers ?r)) = now ?r + BUILD_DEBOUNCE_TIME"
    by (simp_all add: t)
  show ?thesis
    using w one debounceQueueBuild_timers(1) [OF assms(2)] tl r(2,3) early late busy
    by blast
qed

theorem debounce_single_timer_witness:
  "exitCode st_running = None \<and> timer_inv st_running
   \<and> list_all (\<lambda>d. d < BUILD_DEBOUNCE_TIME) [500, 1999]
   \<and> length (timers (rearm env0 [500, 1999] (debounceQueueBuild st_running))) = 1
   \<and> (1999::nat) < BUILD_DEBOUNCE_TIME
   \<and> pause_count (step env0 (rearm env0 [500, 1999] (debounceQueueBuild st_running))
        (Elapse 1999)) = 0
   \<and> qb_count (step env0 (rearm env0 [500, 1999] (debounceQueueBuild st_running))
        (Elapse 1999)) = 0
   \<and> BUILD_DEBOUNCE_TIME \<le> (2000::nat)
   \<and> queue_idle (uploadQueue st_running)
   \<and> pause_count (step env0 (rearm env0 [500, 1999] (debounceQueueBuild st_running))
        (Elapse 2000)) = 1
   \<and> qb_count (step env0 (rearm env0 [500, 1999] (debounceQueueBuild st_running))
        (Elapse 2000)) = 1
   \<and> exitCode st_uploading = None \<and> timer_inv st_uploading
   \<and> awaitingIdle st_uploading = 0 \<and> waiting (uploadQueue st_uploading) = []
   \<and> inflight (uploadQueue st_uploading) = [Fulfilled ()]
   \<and> qb_count (step env0 (rearm env0 [500, 1999] (debounceQueueBuild st_uploading))
        (Elapse 2000)) = 0
   \<and> pause_count (step env0 (rearm env0 [500, 1999] (debounceQueueBuild st_uploading))
        (Elapse 2000)) = 1
   \<and> qb_count (step env0 (step env0 (rearm env0 [500, 1999] (debounceQueueBuild st_uploading))
        (Elapse 2000)) (Settle 0)) = 1
   \<and> pause_count
        (step env0 (step env0 (rearm env0 [500, 1999] (debounceQueueBuild st_uploading))
          (Elapse 2000)) (Settle 0)) = 1"
proof -
  have h: "exitCode st_running = None" "timer_inv st_running"
    "list_all (\<lambda>d. d < BUILD_DEBOUNCE_TIME) [500, 1999]"
    by (simp_all add: st_running_eq timer_inv_def BUILD_DEBOUNCE_TIME_def)
  have q: "qb_count st_running = 0" "pause_count st_running = 0"
    "(1999::nat) < BUILD_DEBOUNCE_TIME" "BUILD_DEBOUNCE_TIME \<le> (2000::nat)"
    "queue_idle (uploadQueue st_running)"
    by (simp_all add: st_running_eq qb_count_def pause_count_def BUILD_DEBOUNCE_TIME_def
        queue_idle_def)
  have u: "exitCode st_uploading = None" "timer_inv st_uploading"
    by (simp_all add: st_uploading_eq st_running_eq timer_inv_def)
  have v: "qb_count st_uploading = 0" "pause_count st_uploading = 0"
    "awaitingIdle st_uploading = 0" "waiting (uploadQueue st_uploading) = []"
    "inflight (uploadQueue st_uploading) = [Fulfilled ()]"
    "\<not> queue_idle (uploadQueue st_uploading)"
    "Fulfilled () \<noteq> (Pending :: unit promise)"
    by (simp_all add: st_uploading_eq st_running_eq qb_count_def pause_count_def
        queue_idle_def)
  have e: "length (timers (rearm env0 [500, 1999] (debounceQueueBuild st_running))) = 1"
    "pause_count (step env0 (rearm env0 [500, 1999] (debounceQueueBuild st_running))
       (Elapse 1999)) = pause_count st_running"
    "qb_count (step env0 (rearm env0 [500, 1999] (debounceQueueBuild st_running))
       (Elapse 1999)) = qb_count st_running"
    using q(3)
      debounce_single_timer [OF h, where env = env0 and opts = opts0 and inputs = "[]"
        and n = 1999]
    by blast+
  have l: "pause_count (step env0 (rearm env0 [500, 1999] (debounceQueueBuild st_running))
       (Elapse 2000)) = Suc (pause_count st_running)"
    "qb_count (step env0 (rearm env0 [500, 1999] (debounceQueueBuild st_running))
       (Elapse 2000))
       = (if queue_idle (uploadQueue st_running) then Suc (qb_count st_running)
          else qb_count st_running)"
    using q(4)
      debounce_single_timer [OF h, where env = env0 and opts = opts0 and inputs = "[]"
        and n = 2000]
    by blast+
  have b: "pause_count (step env0 (rearm env0 [500, 1999] (debounceQueueBuild st_uploading))
       (Elapse 2000)) = Suc (pause_count st_uploading)"
    "qb_count (step env0 (rearm env0 [500, 1999] (debounceQueueBuild st_uploading))
       (Elapse 2000))
       = (if queue_idle (uploadQueue st_uploading) then Suc (qb_count st_uploading)
          else qb_count st_uploading)"
    "pause_count
       (step env0 (step env0 (rearm env0 [500, 1999] (debounceQueueBuild st_uploading))
         (Elapse 2000)) (Settle 0)) = Suc (pause_count st_uploading)"
    "qb_count
       (step env0 (step env0 (rearm env0 [500, 1999] (debounceQueueBuild st_uploading))
         (Elapse 2000)) (Settle 0)) = Suc (qb_count st_uploading)"
    using q(4) v(3-5,7)
      debounce_single_timer [OF u h(3), where env = env0 and opts = opts0 and inputs = "[]"
        and n = 2000 and p = "Fulfilled ()"]
    by blast+
  have f: "pause_count (step env0 (rearm env0 [500, 1999] (debounceQueueBuild st_running))
       (Elapse 1999)) = 0"
    "qb_count (step env0 (rearm env0 [500, 1999] (debounceQueueBuild st_running))
       (Elapse 1999)) = 0"
    "pause_count (step env0 (rearm env0 [500, 1999] (debounceQueueBuild st_running))
       (Elapse 2000)) = 1"
    "qb_count (step env0 (rearm env0 [500, 1999] (debounceQueueBuild st_running))
       (Elapse 2000)) = 1"
    by (simp_all only: e(2,3) l q(1,2,5)) simp_all
  have g: "qb_count (step env0 (rearm env0 [500, 1999] (debounceQueueBuild st_uploading))
        (Elapse 2000)) = 0"
    "pause_count (step env0 (rearm env0 [500, 1999] (debounceQueueBuild st_uploading))
        (Elapse 2000)) = 1"
    "qb_count (step env0 (step env0 (rearm env0 [500, 1999] (debounceQueueBuild st_uploading))
        (Elapse 2000)) (Settle 0)) = 1"
    "pause_count
        (step env0 (step env0 (rearm env0 [500, 1999] (debounceQueueBuild st_uploading))
          (Elapse 2000)) (Settle 0)) = 1"
    by (simp_all only: b v(1,2,6)) simp_all
  show ?thesis
    using h q(3-5) e(1) f u v(3-5) g by blast
qed

subsection \<open>A path with a disallowed extension\<close>

text \<open>
  Claim C7 does not hold of the code while the queue runs. The extension of
  \<^verbatim>\<open>a.exe\<close> is not allowed; the queue is running; the added file is handed to the
  queue and uploaded.
\<close>

theorem disallowed_add_is_uploaded:
  "\<not> isAllowedExtension env0 ''/proj/src/a.exe''
   \<and> \<not> isPaused (uploadQueue st_running)
   \<and> trace (step env0 st_running (Watch ''/proj/src/a.exe'' Add))
       = trace st_running
         @ [SpinniesUpdate ''devModeStatus'' ''dirty'',
            QueueAdd (WatchTask \<lparr>event = Add, filePath = ''/proj/src/a.exe'',
                                 remotePath = ''a.exe''\<rparr>),
            SpinniesAdd ''/proj/src/a.exe'' ''Uploading change for a.exe'',
            CallUploadFileToBuild ''/proj/src/a.exe'' ''a.exe'']"
  by (simp add: st_running_eq all_defs rt_defs env0_def)

subsection \<open>Stopping\<close>

text \<open>
  Claim C8. In \<^verbatim>\<open>stop()\<close>, when a staged build is held and the cancel call fails: a
  failure that says the build is not in progress is swallowed, the success line is shown
  and the process exits with the success code; any other failure is reported through
  \<^verbatim>\<open>logApiErrorInstance\<close>, the failure line is shown and the process exits with the
  error code.
\<close>

theorem stop_cancel_failure:
  assumes "truthy (currentStagedBuildId st)"
    and "await (cancelStagedBuild env
           (trace st @ [SpinniesRemoveAll, SpinniesAdd ''cleanupMessage'' ''exitingStart'',
                        WatcherClose])) = Some (Inl err)"
  shows "exitCode (snd (stop env st))
           = Some (if err = BUILD_NOT_IN_PROGRESS then SUCCESS else ERROR)
       \<and> trace (snd (stop env st))
           = trace st
             @ [SpinniesRemoveAll, SpinniesAdd ''cleanupMessage'' ''exitingStart'',
                WatcherClose, CallCancelStagedBuild]
             @ (if err = BUILD_NOT_IN_PROGRESS
                then [SpinniesSucceed ''cleanupMessage'' ''exitingSucceed'', ProcessExit SUCCESS]
                else [LogApiErrorInstance err, SpinniesFail ''cleanupMessage'' ''exitingFail'',
                      ProcessExit ERROR])"
  using assms by (simp add: stop_def rt_defs isSpecifiedError_def)

theorem stop_cancel_failure_witness:
  "truthy (currentStagedBuildId st_built)
   \<and> await (cancelStagedBuild env_stop
           (trace st_built @ [SpinniesRemoveAll, SpinniesAdd ''cleanupMessage'' ''exitingStart'',
                        WatcherClose])) = Some (Inl BUILD_NOT_IN_PROGRESS)
   \<and> exitCode (snd (stop env_stop st_built)) = Some SUCCESS
   \<and> trace (snd (stop env_stop st_built))
       = [SpinniesRemoveAll, SpinniesAdd ''cleanupMessage'' ''exitingStart'',
          WatcherClose, CallCancelStagedBuild,
          SpinniesSucceed ''cleanupMessage'' ''exitingSucceed'', ProcessExit SUCCESS]"
proof -
  have a: "truthy (currentStagedBuildId st_built)"
    by (simp add: st_built_def truthy_def)
  have b: "await (cancelStagedBuild env_stop
           (trace st_built @ [SpinniesRemoveAll, SpinniesAdd ''cleanupMessage'' ''exitingStart'',
                        WatcherClose])) = Some (Inl BUILD_NOT_IN_PROGRESS)"
    by (simp add: env_stop_def env0_def)
  have c: "trace st_built = []"
    by (simp add: st_built_def constructor_def)
  show ?thesis
    using a b stop_cancel_failure [OF a b] by (simp add: c)
qed

text \<open>
  Claim C9. Once \<^verbatim>\<open>stop()\<close> has run to its end the process has exited, so a second
  \<^verbatim>\<open>stop()\<close> changes nothing: over both calls the remote build is cancelled at most
  once (once if a staged build was held) and the process exits exactly once.
\<close>

theorem stop_twice:
  assumes "exitCode st = None"
    and "truthy (currentStagedBuildId st) \<longrightarrow>
             await (cancelStagedBuild env
               (trace st @ [SpinniesRemoveAll, SpinniesAdd ''cleanupMessage'' ''exitingStart'',
                            WatcherClose])) \<noteq> None"
  shows "exitCode (step env st Stop) \<noteq> None
       \<and> step env (step env st Stop) Stop = step env st Stop
       \<and> count_list (trace (step env (step env st Stop) Stop)) CallCancelStagedBuild
           = count_list (trace st) CallCancelStagedBuild
             + (if truthy (currentStagedBuildId st) then 1 else 0)
       \<and> length (filter is_exit (trace (step env (step env st Stop) Stop)))
           = Suc (length (filter is_exit (trace st)))"
proof -
  have s: "step env st Stop = note_unhandled (fst (stop env st)) (snd (stop env st))"
    using assms(1) by (simp add: split_beta)
  have e: "exitCode (step env st Stop) \<noteq> None"
    unfolding s using stop_exits(1) [OF assms(2)] by simp
  then have i: "step env (step env st Stop) Stop = step env st Stop"
    by (simp del: not_None_eq)
  show ?thesis
    using e stop_exits(2,3) [OF assms(2)] unfolding i unfolding s by simp
qed

theorem stop_twice_witness:
  "exitCode st_running = None
   \<and> truthy (currentStagedBuildId st_running)
   \<and> await (cancelStagedBuild env0
       (trace st_running @ [SpinniesRemoveAll, SpinniesAdd ''cleanupMessage'' ''exitingStart'',
                            WatcherClose])) \<noteq> None
   \<and> step env0 (step env0 st_running Stop) Stop = step env0 st_running Stop
   \<and> count_list (trace (step env0 (step env0 st_running Stop) Stop)) CallCancelStagedBuild = 1
   \<and> length (filter is_exit (trace (step env0 (step env0 st_running Stop) Stop))) = 1"
proof -
  have a: "exitCode st_running = None"
    by (simp add: st_running_eq)
  have b: "truthy (currentStagedBuildId st_running)"
    "await (cancelStagedBuild env0
       (trace st_running @ [SpinniesRemoveAll, SpinniesAdd ''cleanupMessage'' ''exitingStart'',
                            WatcherClose])) \<noteq> None"
    "count_list (trace st_running) CallCancelStagedBuild = 0"
    "filter is_exit (trace st_running) = []"
    by (simp_all add: st_running_eq truthy_def env0_def)
  have c: "truthy (currentStagedBuildId st_running) \<longrightarrow>
     await (cancelStagedBuild env0
       (trace st_running @ [SpinniesRemoveAll, SpinniesAdd ''cleanupMessage'' ''exitingStart'',
                            WatcherClose])) \<noteq> None"
    using b(2) by simp
  have d: "step env0 (step env0 st_running Stop) Stop = step env0 st_running Stop"
    "count_list (trace (step env0 (step env0 st_running Stop) Stop)) CallCancelStagedBuild
       = count_list (trace st_running) CallCancelStagedBuild
         + (if truthy (currentStagedBuildId st_running) then 1 else 0)"
    "length (filter is_exit (trace (step env0 (step env0 st_running Stop) Stop)))
       = Suc (length (filter is_exit (trace st_running)))"
    using stop_twice [OF a c] by blast+
  have f: "count_list (trace (step env0 (step env0 st_running Stop) Stop))
             CallCancelStagedBuild = 1"
    "length (filter is_exit (trace (step env0 (step env0 st_running Stop) Stop))) = 1"
    by (simp_all only: d(2,3) b) simp_all
  show ?thesis
    using a b(1,2) d(1) f by blast
qed

subsection \<open>Supported changes\<close>

text \<open>
  Claim C10. \<^verbatim>\<open>notifyServers\<close> answers false for every change. Whatever reaches a
  started manager, no entry of the standby buffer is marked supported, and
  \<^verbatim>\<open>hasAnyUnsupportedStandbyChanges()\<close> is true exactly when the buffer is not empty.
\<close>

theorem standby_changes_never_supported:
  "notifyServers changeInfo = False
   \<and> list_all (\<lambda>c. \<not> supported c)
        (standbyChanges (run env (snd (start env (constructor opts))) inputs))
   \<and> hasAnyUnsupportedStandbyChanges (run env (snd (start env (constructor opts))) inputs)
       = (standbyChanges (run env (snd (start env (constructor opts))) inputs) \<noteq> [])"
proof -
  let ?st = "run env (snd (start env (constructor opts))) inputs"
  have u: "list_all (\<lambda>c. \<not> supported c) (standbyChanges ?st)"
    using run_keeps(2) [OF start_keeps(2)] by (simp add: unsupported_only_def)
  then have "list_ex (\<lambda>c. \<not> supported c) (standbyChanges ?st) = (standbyChanges ?st \<noteq> [])"
    by (cases "standbyChanges ?st") simp_all
  then show ?thesis
    using u by (simp add: notifyServers_def hasAnyUnsupportedStandbyChanges_def)
qed

theorem standby_changes_never_supported_witness:
  "notifyServers ci_a = False
   \<and> standbyChanges (run env_deploying (snd (start env_deploying (constructor opts0)))
        [Watch ''/proj/src/a.html'' Add, Elapse 2000, Watch ''/proj/src/b.css'' Change])
       = [\<lparr>change = \<lparr>event = Change, filePath = ''/proj/src/b.css'', remotePath = ''b.css''\<rparr>,
           supported = False\<rparr>]
   \<and> hasAnyUnsupportedStandbyChanges
        (run env_deploying (snd (start env_deploying (constructor opts0)))
          [Watch ''/proj/src/a.html'' Add, Elapse 2000, Watch ''/proj/src/b.css'' Change])"
proof -
  have a: "snd (start env_deploying (constructor opts0)) = st_running"
    by (simp add: st_running_eq all_defs rt_defs env_deploying_def env0_def opts0_def)
  have b: "standbyChanges (run env_deploying st_running
        [Watch ''/proj/src/a.html'' Add, Elapse 2000, Watch ''/proj/src/b.css'' Change])
       = [\<lparr>change = \<lparr>event = Change, filePath = ''/proj/src/b.css'', remotePath = ''b.css''\<rparr>,
           supported = False\<rparr>]"
    by (simp add: st_running_eq all_defs rt_defs env_deploying_def env0_def)
  show ?thesis
    using standby_changes_never_supported [where changeInfo = ci_a and env = env_deploying
        and opts = opts0 and inputs =
        "[Watch ''/proj/src/a.html'' Add, Elapse 2000, Watch ''/proj/src/b.css'' Change]"]
    by (simp add: a b)
qed

end
